theory Spec2Isabelle
  imports Main "HOL-Library.AList"
begin

section \<open>JavaScript values and dictionaries\<close>

text \<open>
  The executor handles JSON-like data: node configuration, trigger input, step results.
  A value is \<open>undefined\<close>, \<open>null\<close>, a boolean, a number, a string, an array or an object.
  Numbers are integers here; the modelled code only tests them for truthiness and prints
  them. Strings are lists of 8-bit characters (one \<open>char\<close> per code unit).

  A path into such a value (\<open>current[field]\<close>) also reaches what arrays and objects
  inherit: a built-in function under the name of a member of \<open>Object.prototype\<close> or
  \<open>Array.prototype\<close>, and the prototype object itself under \<open>__proto__\<close>. These are the
  last three kinds of value; the executor never builds them by itself.
\<close>

datatype jsval =
    JUndefined
  | JNull
  | JBool bool
  | JNum int
  | JStr string
  | JArr "jsval list"
  | JObj "(string \<times> jsval) list"
  | JFunction string
  | JObjectPrototype
  | JArrayPrototype

datatype js_error = JsError string

text \<open>\<open>Boolean(v)\<close>, also the test of \<open>if (v)\<close>, \<open>!v\<close>, \<open>a || b\<close> and \<open>a && b\<close>.\<close>

fun js_truthy :: "jsval \<Rightarrow> bool" where
  "js_truthy JUndefined = False"
| "js_truthy JNull = False"
| "js_truthy (JBool b) = b"
| "js_truthy (JNum n) = (n \<noteq> 0)"
| "js_truthy (JStr s) = (s \<noteq> [])"
| "js_truthy (JArr xs) = True"
| "js_truthy (JObj ps) = True"
| "js_truthy (JFunction name) = True"
| "js_truthy JObjectPrototype = True"
| "js_truthy JArrayPrototype = True"

text \<open>
  \<open>typeof v === "object"\<close>: true of \<open>null\<close>, arrays, objects and the two prototype
  objects, false of a function.
\<close>

fun typeof_object :: "jsval \<Rightarrow> bool" where
  "typeof_object JNull = True"
| "typeof_object (JArr xs) = True"
| "typeof_object (JObj ps) = True"
| "typeof_object JObjectPrototype = True"
| "typeof_object JArrayPrototype = True"
| "typeof_object v = False"

text \<open>The decimal numeral of a natural number, as a template literal prints it.\<close>

fun nat_to_string :: "nat \<Rightarrow> string" where
  "nat_to_string n =
     (if n < 10 then [''0123456789'' ! n]
      else nat_to_string (n div 10) @ [''0123456789'' ! (n mod 10)])"

declare nat_to_string.simps [simp del]

text \<open>
  An object used as a dictionary (\<open>results\<close>, \<open>evalContext\<close>, \<open>resolvedValues\<close>, a node's
  \<open>config\<close>, the \<open>processed\<close> configuration) is an association list of its own properties
  in the order of their creation; \<open>outputs\<close>, whose prototype matters to later lookups,
  has a type of its own below.

  An object literal \<open>{k: v, ...}\<close> and a spread \<open>{...a, ...b}\<close> define own properties
  whatever the key is: \<open>AList.update\<close>, which replaces the value of an existing key in
  place and appends a new key. An assignment \<open>o[k] = v\<close> does the same for every key but
  \<open>__proto__\<close>: under that key it calls the setter inherited from \<open>Object.prototype\<close>,
  which replaces the prototype of \<open>o\<close> when \<open>v\<close> is an object or \<open>null\<close> and does nothing
  otherwise, and no own property is created. The code reads none of these dictionaries
  by key after such an assignment (it enumerates or spreads their own properties), so
  the assignment leaves the association list as it is.
\<close>

definition js_assign :: "(string \<times> 'a) list \<Rightarrow> (string \<times> 'a) list \<Rightarrow> (string \<times> 'a) list" where
  "js_assign a b = fold (\<lambda>(k, v). AList.update k v) b a"

definition js_set :: "string \<Rightarrow> 'a \<Rightarrow> (string \<times> 'a) list \<Rightarrow> (string \<times> 'a) list" where
  "js_set key v d = (if key = ''__proto__'' then d else AList.update key v d)"





text \<open>
  \<open>v.k\<close> and \<open>k in v\<close> for the keys the executor reads by name from a step result or its
  data (\<open>success\<close>, \<open>error\<close>, \<open>condition\<close>, \<open>data\<close>): none of them is a member of a built-in
  prototype, so what is found is an own property, and a value that is not an
  object has none.
\<close>

fun js_get :: "jsval \<Rightarrow> string \<Rightarrow> jsval" where
  "js_get (JObj ps) field = (case map_of ps field of None \<Rightarrow> JUndefined | Some v \<Rightarrow> v)"
| "js_get v field = JUndefined"

fun js_has :: "jsval \<Rightarrow> string \<Rightarrow> bool" where
  "js_has (JObj ps) k = (k \<in> set (map fst ps))"
| "js_has v k = False"

text \<open>
  The string-keyed members of \<open>Object.prototype\<close>, which every object created by an
  object literal inherits, and those that \<open>Array.prototype\<close> adds (ECMAScript 2023;
  \<open>length\<close> is an own property of every array).
\<close>

definition Object_prototype_members :: "string list" where
  "Object_prototype_members =
     [''constructor'', ''hasOwnProperty'', ''isPrototypeOf'', ''propertyIsEnumerable'',
      ''toLocaleString'', ''toString'', ''valueOf'', ''__proto__'', ''__defineGetter__'',
      ''__defineSetter__'', ''__lookupGetter__'', ''__lookupSetter__'']"

definition Array_prototype_members :: "string list" where
  "Array_prototype_members =
     [''at'', ''concat'', ''copyWithin'', ''entries'', ''every'', ''fill'', ''filter'',
      ''find'', ''findIndex'', ''findLast'', ''findLastIndex'', ''flat'', ''flatMap'',
      ''forEach'', ''includes'', ''indexOf'', ''join'', ''keys'', ''lastIndexOf'', ''map'',
      ''pop'', ''push'', ''reduce'', ''reduceRight'', ''reverse'', ''shift'', ''slice'',
      ''some'', ''sort'', ''splice'', ''toLocaleString'', ''toReversed'', ''toSorted'',
      ''toSpliced'', ''toString'', ''unshift'', ''values'', ''with'']"

definition inherited_function :: "string list \<Rightarrow> string \<Rightarrow> jsval" where
  "inherited_function members field =
     (if field \<in> set members then JFunction field else JUndefined)"

text \<open>
  \<open>current[field]\<close> for a truthy value of type object, on a path of a template: an own
  property of an object, an element or the length of an array, and otherwise what the
  value inherits. The prototype of \<open>Array.prototype\<close> is \<open>Object.prototype\<close>, whose
  \<open>__proto__\<close> is \<open>null\<close>.
\<close>

fun js_member :: "jsval \<Rightarrow> string \<Rightarrow> jsval" where
  "js_member (JObj ps) field =
     (case map_of ps field of
        Some v \<Rightarrow> v
      | None \<Rightarrow>
          if field = ''__proto__'' then JObjectPrototype
          else inherited_function Object_prototype_members field)"
| "js_member (JArr xs) field =
     (if field = ''length'' then JNum (int (length xs))
      else (case map_of (zip (map nat_to_string [0..<length xs]) xs) field of
              Some v \<Rightarrow> v
            | None \<Rightarrow>
                if field = ''__proto__'' then JArrayPrototype
                else inherited_function
                       (Array_prototype_members @ Object_prototype_members) field))"
| "js_member JObjectPrototype field =
     (if field = ''__proto__'' then JNull
      else inherited_function Object_prototype_members field)"
| "js_member JArrayPrototype field =
     (if field = ''length'' then JNum 0
      else if field = ''__proto__'' then JObjectPrototype
      else inherited_function (Array_prototype_members @ Object_prototype_members) field)"
| "js_member v field = JUndefined"

text \<open>
  The own enumerable properties that an object spread \<open>{...v}\<close> copies: those of an object,
  the elements of an array and the characters of a string under their indices, none of
  any other value.
\<close>

fun js_spread :: "jsval \<Rightarrow> (string \<times> jsval) list" where
  "js_spread (JObj ps) = ps"
| "js_spread (JArr xs) = zip (map nat_to_string [0..<length xs]) xs"
| "js_spread (JStr s) = zip (map nat_to_string [0..<length s]) (map (\<lambda>c. JStr [c]) s)"
| "js_spread v = []"

section \<open>Data model\<close>

text \<open>
  \<open>ExecutionResult = {success, data?, error?}\<close> and a node output \<open>{label, data}\<close>; an
  absent optional field is \<open>undefined\<close>.
\<close>

record NodeOutput =
  out_label :: string
  out_data :: jsval

record ExecutionResult =
  success :: bool
  res_data :: jsval
  res_error :: jsval

text \<open>
  \<open>NodeOutputs = Record<string, {label, data}>\<close>, an object created by the literal \<open>{}\<close>:
  its own properties, and the node output that an assignment under the key \<open>__proto__\<close>
  has put in the place of its prototype (\<open>None\<close> while the prototype is still
  \<open>Object.prototype\<close>).
\<close>

record NodeOutputs =
  own_outputs :: "(string \<times> NodeOutput) list"
  replaced_prototype :: "NodeOutput option"

definition no_outputs :: NodeOutputs where
  "no_outputs = \<lparr>own_outputs = [], replaced_prototype = None\<rparr>"

text \<open>
  \<open>outputs[key] = output\<close>: an own property, except under the key \<open>__proto__\<close>, where the
  inherited setter makes \<open>output\<close> the prototype of \<open>outputs\<close> and no own property is
  created.
\<close>

definition assign_output :: "string \<Rightarrow> NodeOutput \<Rightarrow> NodeOutputs \<Rightarrow> NodeOutputs" where
  "assign_output key output outs =
     (if key = ''__proto__'' then outs\<lparr>replaced_prototype := Some output\<rparr>
      else outs\<lparr>own_outputs := AList.update key output (own_outputs outs)\<rparr>)"

text \<open>
  What an assignment under a key has stored: the own property, or for the key
  \<open>__proto__\<close> the replaced prototype.
\<close>

definition output_slot :: "NodeOutputs \<Rightarrow> string \<Rightarrow> NodeOutput option" where
  "output_slot outs key =
     (if key = ''__proto__'' then replaced_prototype outs else map_of (own_outputs outs) key)"

text \<open>
  A workflow node, with the fields of \<open>node.data\<close> the executor reads. A label that is
  \<open>undefined\<close> is the empty string (the code only tests the label for truthiness);
  \<open>enabled\<close> and \<open>config\<close> may be \<open>undefined\<close> (\<open>None\<close>).
\<close>

record WorkflowNode =
  node_id :: string
  node_label :: string
  node_type :: string
  enabled :: "bool option"
  config :: "(string \<times> jsval) list option"

record WorkflowEdge =
  source :: string
  target :: string

record WorkflowExecutionInput =
  nodes :: "WorkflowNode list"
  edges :: "WorkflowEdge list"
  triggerInput :: "(string \<times> jsval) list"
  executionId :: "string option"
  workflowId :: "string option"

text \<open>A step function of a module: it returns a value or throws.\<close>

type_synonym step_function = "(string \<times> jsval) list \<Rightarrow> js_error + jsval"

text \<open>A loaded module: its exports by name. An importer throws or yields the module.\<close>

type_synonym step_module = "string \<Rightarrow> step_function option"

record StepImporter =
  importer :: "js_error + step_module"
  stepFunction :: string

text \<open>
  What the executor imports from modules that are not part of the modelled file, and the
  built-ins of the JavaScript runtime it calls, are parameters of the model:
  the two validators of \<open>condition-validator\<close>; \<open>new Function(...names, body)(...values)\<close>
  (\<open>evalFunc\<close>: parameter names, argument values, the expression); \<open>JSON.parse\<close>,
  \<open>JSON.stringify\<close> and \<open>String\<close> on a scalar; the readings of \<open>Date.now()\<close> in call order;
  \<open>getActionLabel\<close> and \<open>getStepImporter\<close> of the step registry; the importers of the
  two system actions whose modules are elsewhere; and \<open>logWorkflowCompleteDb\<close>, which
  reports the outcome (\<open>Some\<close> is the exception it throws).
\<close>

record WorkflowCompleteParams =
  log_executionId :: string
  log_status :: string
  log_output :: jsval
  log_error :: jsval
  log_startTime :: int

record js_env =
  preValidateConditionExpression :: "string \<Rightarrow> bool"
  validateConditionExpression :: "string \<Rightarrow> bool"
  evalFunc :: "string list \<Rightarrow> jsval list \<Rightarrow> string \<Rightarrow> js_error + jsval"
  JSON_parse :: "jsval \<Rightarrow> js_error + jsval"
  JSON_stringify :: "jsval \<Rightarrow> string"
  String_of :: "jsval \<Rightarrow> string"
  Date_now :: "nat \<Rightarrow> int"
  getActionLabel :: "string \<Rightarrow> string option"
  getStepImporter :: "string \<Rightarrow> StepImporter option"
  databaseQueryImporter :: "js_error + step_module"
  httpRequestImporter :: "js_error + step_module"
  logWorkflowCompleteDb :: "WorkflowCompleteParams \<Rightarrow> js_error option"

section \<open>Template references\<close>

text \<open>\<open>nodeId.replace(/[^a-zA-Z0-9]/g, "_")\<close>.\<close>

definition alphanumeric :: "char \<Rightarrow> bool" where
  "alphanumeric c =
     (c \<in> set ''abcdefghijklmnopqrstuvwxyzABCDEFGHIJKLMNOPQRSTUVWXYZ0123456789'')"

definition sanitize :: "string \<Rightarrow> string" where
  "sanitize nodeId = map (\<lambda>c. if alphanumeric c then c else CHR ''_'') nodeId"

text \<open>
  A match of \<open>/\{\{@([^:]+):([^}]+)\}\}/\<close> at the start of a string: the two groups and
  the text after the match. Both groups are greedy runs of a negated class followed by
  a character outside the class, so the only candidate for each is the longest run.
\<close>

definition template_at :: "string \<Rightarrow> (string \<times> string \<times> string) option" where
  "template_at s =
     (if take 3 s = ''{{@'' then
        (let t = drop 3 s;
             nodeId = takeWhile (\<lambda>c. c \<noteq> CHR '':'') t;
             t1 = dropWhile (\<lambda>c. c \<noteq> CHR '':'') t
         in if nodeId = [] \<or> t1 = [] then None
            else
              (let u = tl t1;
                   rest = takeWhile (\<lambda>c. c \<noteq> CHR ''}'') u;
                   u1 = dropWhile (\<lambda>c. c \<noteq> CHR ''}'') u
               in if rest = [] \<or> take 2 u1 \<noteq> ''}}'' then None
                  else Some (nodeId, rest, drop 2 u1)))
      else None)"

definition template_text :: "string \<Rightarrow> string \<Rightarrow> string" where
  "template_text nodeId rest = ''{{@'' @ nodeId @ '':'' @ rest @ ''}}''"

lemma template_at_shorter:
  "template_at s = Some (nodeId, rest, remaining) \<Longrightarrow> length remaining < length s"
proof -
  assume a: "template_at s = Some (nodeId, rest, remaining)"
  have d: "length (dropWhile P xs) \<le> length xs" for P and xs :: string
    by (induction xs) auto
  from a have p: "take 3 s = ''{{@''"
    by (simp add: template_at_def split: if_splits)
  then have l: "3 \<le> length s"
    by (cases "3 \<le> length s") auto
  let ?t1 = "dropWhile (\<lambda>c. c \<noteq> CHR '':'') (drop 3 s)"
  let ?u1 = "dropWhile (\<lambda>c. c \<noteq> CHR ''}'') (tl ?t1)"
  from a p have r: "remaining = drop 2 ?u1"
    by (simp add: template_at_def Let_def split: if_splits)
  have "length ?u1 \<le> length (tl ?t1)" by (rule d)
  also have "\<dots> \<le> length ?t1" by simp
  also have "\<dots> \<le> length (drop 3 s)" by (rule d)
  finally have "length ?u1 \<le> length s - 3" by simp
  with l r show ?thesis by simp
qed

text \<open>
  \<open>s.replace(templatePattern, callback)\<close> with the global flag: matches are found left to
  right, each is replaced by what the callback returns for it, and the search goes on
  after the match. The callback may update state (\<open>evalContext\<close>, \<open>varCounter\<close>,
  \<open>resolvedValues\<close>), threaded through here.
\<close>

function replace_templates ::
  "(string \<Rightarrow> string \<Rightarrow> string \<Rightarrow> 's \<Rightarrow> string \<times> 's) \<Rightarrow> string \<Rightarrow> 's \<Rightarrow> string \<times> 's" where
  "replace_templates f [] st = ([], st)"
| "replace_templates f (c # cs) st =
     (case template_at (c # cs) of
        Some (nodeId, rest, remaining) \<Rightarrow>
          (case f (template_text nodeId rest) nodeId rest st of
             (r, st1) \<Rightarrow>
               (case replace_templates f remaining st1 of
                  (out, st2) \<Rightarrow> (r @ out, st2)))
      | None \<Rightarrow>
          (case replace_templates f cs st of
             (out, st1) \<Rightarrow> (c # out, st1)))"
  by pat_completeness auto
termination
  by (relation "measure (\<lambda>(f, s, st). length s)") (auto dest: template_at_shorter)

text \<open>
  The references of a string: the two groups of every match that \<open>replace\<close> finds, in order.
\<close>

function template_refs :: "string \<Rightarrow> (string \<times> string) list" where
  "template_refs [] = []"
| "template_refs (c # cs) =
     (case template_at (c # cs) of
        Some (nodeId, rest, remaining) \<Rightarrow> (nodeId, rest) # template_refs remaining
      | None \<Rightarrow> template_refs cs)"
  by pat_completeness auto
termination
  by (relation "measure length") (auto dest: template_at_shorter)

text \<open>\<open>s.split(".")\<close>.\<close>

fun split_dot :: "string \<Rightarrow> string list" where
  "split_dot [] = [[]]"
| "split_dot (c # cs) =
     (if c = CHR ''.'' then [] # split_dot cs
      else (case split_dot cs of [] \<Rightarrow> [[c]] | f # fs \<Rightarrow> (c # f) # fs))"

text \<open>\<open>rest.substring(rest.indexOf(".") + 1)\<close>, for a \<open>rest\<close> that contains a dot.\<close>

definition fieldPath :: "string \<Rightarrow> string" where
  "fieldPath rest = tl (dropWhile (\<lambda>c. c \<noteq> CHR ''.'') rest)"

text \<open>
  The text a resolved value takes inside a configuration string: empty for \<open>null\<close> and
  \<open>undefined\<close>, \<open>JSON.stringify\<close> for a value of type object, \<open>String\<close> otherwise.
\<close>

definition value_text :: "js_env \<Rightarrow> jsval \<Rightarrow> string" where
  "value_text env v =
     (if v = JNull \<or> v = JUndefined then []
      else if typeof_object v then JSON_stringify env v
      else String_of env v)"

text \<open>
  The loop over the fields of a path in \<open>processTemplates\<close>: \<open>None\<close> when it returns the
  empty string from inside the loop, the last \<open>current\<close> otherwise.
\<close>

fun navigate_text :: "string list \<Rightarrow> jsval \<Rightarrow> jsval option" where
  "navigate_text [] current = Some current"
| "navigate_text (field # more_fields) current =
     (if js_truthy current \<and> typeof_object current
      then navigate_text more_fields (js_member current field)
      else None)"

text \<open>
  \<open>outputs[key]\<close>, as the \<open>data\<close> property of what the lookup yields; \<open>None\<close> when the
  lookup yields a falsy value, the case in which \<open>!output\<close> holds. The lookup finds, in
  this order: the output recorded under the key; for the key \<open>__proto__\<close> the prototype,
  which is a node output once replaced; the \<open>label\<close> (a string, without a \<open>data\<close>
  property) or the \<open>data\<close> of a node output that has replaced the prototype; a member
  inherited from \<open>Object.prototype\<close> (a function or the prototype object, truthy and
  without a \<open>data\<close> property).
\<close>

definition lookup_output :: "NodeOutputs \<Rightarrow> string \<Rightarrow> jsval option" where
  "lookup_output outputs key =
     (case map_of (own_outputs outputs) key of
        Some output \<Rightarrow> Some (out_data output)
      | None \<Rightarrow>
          (case replaced_prototype outputs of
             Some proto \<Rightarrow>
               if key = ''__proto__'' then Some (out_data proto)
               else if key = ''label''
               then (if out_label proto \<noteq> [] then Some JUndefined else None)
               else if key = ''data''
               then (if js_truthy (out_data proto) then Some (js_get (out_data proto) ''data'')
                     else None)
               else if key \<in> set Object_prototype_members then Some JUndefined
               else None
           | None \<Rightarrow>
               if key \<in> set Object_prototype_members then Some JUndefined else None))"

text \<open>The callback of \<open>processTemplates\<close>: the replacement text of one reference.\<close>

definition resolve_text :: "js_env \<Rightarrow> NodeOutputs \<Rightarrow> string \<Rightarrow> string \<Rightarrow> string \<Rightarrow> string" where
  "resolve_text env outputs match nodeId rest =
     (case lookup_output outputs (sanitize nodeId) of
        None \<Rightarrow> match
      | Some output_data \<Rightarrow>
          if CHR ''.'' \<notin> set rest then value_text env output_data
          else if output_data = JNull \<or> output_data = JUndefined then []
          else
            (case navigate_text (split_dot (fieldPath rest)) output_data of
               None \<Rightarrow> []
             | Some current \<Rightarrow> value_text env current))"

definition process_string :: "js_env \<Rightarrow> NodeOutputs \<Rightarrow> string \<Rightarrow> string" where
  "process_string env outputs s =
     fst (replace_templates
            (\<lambda>match nodeId rest u. (resolve_text env outputs match nodeId rest, u)) s ())"

definition processTemplates ::
  "js_env \<Rightarrow> (string \<times> jsval) list \<Rightarrow> NodeOutputs \<Rightarrow> (string \<times> jsval) list" where
  "processTemplates env cfg outputs =
     fold (\<lambda>(key, v) processed.
             js_set key
               (case v of JStr s \<Rightarrow> JStr (process_string env outputs s) | _ \<Rightarrow> v)
               processed)
          cfg []"

text \<open>
  The loop over the fields of a path in \<open>replaceTemplateVariable\<close>, as the pair
  (\<open>value\<close>, \<open>current\<close>) it leaves: \<open>value\<close> is \<open>undefined\<close> before the loop and is assigned
  \<open>undefined\<close> again when the loop breaks at a value that is not an object.
\<close>

fun navigate_value :: "string list \<Rightarrow> jsval \<Rightarrow> jsval \<times> jsval" where
  "navigate_value [] current = (JUndefined, current)"
| "navigate_value (field # more_fields) current =
     (if js_truthy current \<and> typeof_object current
      then navigate_value more_fields (js_member current field)
      else (JUndefined, current))"

text \<open>
  \<open>replaceTemplateVariable\<close>: the replacement text, with the updated \<open>evalContext\<close> and
  \<open>varCounter\<close>.
\<close>

definition replaceTemplateVariable ::
  "string \<Rightarrow> string \<Rightarrow> string \<Rightarrow> NodeOutputs \<Rightarrow> (string \<times> jsval) list \<Rightarrow> nat
     \<Rightarrow> string \<times> (string \<times> jsval) list \<times> nat" where
  "replaceTemplateVariable match nodeId rest outputs evalContext varCounter =
     (case lookup_output outputs (sanitize nodeId) of
        None \<Rightarrow> (match, evalContext, varCounter)
      | Some output_data \<Rightarrow>
          (let val =
                 (if CHR ''.'' \<notin> set rest then output_data
                  else if output_data = JNull \<or> output_data = JUndefined
                  then JUndefined
                  else
                    (case navigate_value (split_dot (fieldPath rest)) output_data of
                       (val0, current) \<Rightarrow>
                         if val0 = JUndefined \<and> current \<noteq> JUndefined then current else val0));
               varName = ''__v'' @ nat_to_string varCounter
           in (varName, js_set varName val evalContext, varCounter + 1)))"

section \<open>Condition evaluator\<close>

record ConditionEvalResult =
  result :: bool
  resolvedValues :: "(string \<times> jsval) list"

text \<open>
  The state of the substitution in \<open>evaluateConditionExpression\<close>: \<open>evalContext\<close>,
  \<open>varCounter\<close> and \<open>resolvedValues\<close>. The callback of its \<open>replace\<close> resolves one reference
  and records \<open>resolvedValues[rest] = evalContext[varName]\<close>.
\<close>

type_synonym subst_state = "(string \<times> jsval) list \<times> nat \<times> (string \<times> jsval) list"

definition condition_callback ::
  "NodeOutputs \<Rightarrow> string \<Rightarrow> string \<Rightarrow> string \<Rightarrow> subst_state \<Rightarrow> string \<times> subst_state" where
  "condition_callback outputs match nodeId rest st =
     (case st of (evalContext, varCounter, resolved) \<Rightarrow>
        (case replaceTemplateVariable match nodeId rest outputs evalContext varCounter of
           (varName, evalContext1, varCounter1) \<Rightarrow>
             (varName, evalContext1, varCounter1,
              js_set rest
                (case map_of evalContext1 varName of None \<Rightarrow> JUndefined | Some v \<Rightarrow> v)
                resolved)))"

definition substitute_templates :: "NodeOutputs \<Rightarrow> string \<Rightarrow> string \<times> subst_state" where
  "substitute_templates outputs s =
     replace_templates (condition_callback outputs) s ([], 0, [])"

text \<open>
  The body of the \<open>try\<close> block: \<open>Inl\<close> is an exception (only the evaluation of the
  generated function can throw), \<open>Inr\<close> a returned result.
\<close>

definition evaluate_try ::
  "js_env \<Rightarrow> string \<Rightarrow> NodeOutputs \<Rightarrow> js_error + ConditionEvalResult" where
  "evaluate_try env conditionExpression outputs =
     (case substitute_templates outputs conditionExpression of
        (transformedExpression, evalContext, varCounter, resolved) \<Rightarrow>
          if \<not> validateConditionExpression env transformedExpression
          then Inr \<lparr>result = False, resolvedValues = resolved\<rparr>
          else
            (case evalFunc env (map fst evalContext) (map snd evalContext)
                    transformedExpression of
               Inl e \<Rightarrow> Inl e
             | Inr r \<Rightarrow> Inr \<lparr>result = js_truthy r, resolvedValues = resolved\<rparr>))"

text \<open>
  \<open>evaluateConditionExpression\<close>. It returns a result on every path: the \<open>catch\<close> turns an
  exception of the \<open>try\<close> block into a result.
\<close>

definition evaluateConditionExpression ::
  "js_env \<Rightarrow> jsval \<Rightarrow> NodeOutputs \<Rightarrow> ConditionEvalResult" where
  "evaluateConditionExpression env conditionExpression outputs =
     (case conditionExpression of
        JBool b \<Rightarrow> \<lparr>result = b, resolvedValues = []\<rparr>
      | JStr s \<Rightarrow>
          if \<not> preValidateConditionExpression env s
          then \<lparr>result = False, resolvedValues = []\<rparr>
          else
            (case evaluate_try env s outputs of
               Inr r \<Rightarrow> r
             | Inl e \<Rightarrow> \<lparr>result = False, resolvedValues = []\<rparr>)
      | _ \<Rightarrow> \<lparr>result = js_truthy conditionExpression, resolvedValues = []\<rparr>)"

section \<open>Step executor\<close>

text \<open>\<open>cfg[k]\<close> as a value: \<open>undefined\<close> for a key that is absent.\<close>

definition cfg_get :: "(string \<times> jsval) list \<Rightarrow> string \<Rightarrow> jsval" where
  "cfg_get cfg k = (case map_of cfg k of None \<Rightarrow> JUndefined | Some v \<Rightarrow> v)"

text \<open>
  The payload of the trigger step: \<open>t\<close> is the number of clock readings taken before.
  The live trigger input is an object; \<open>null\<close> and \<open>undefined\<close> count as the empty object.
\<close>

definition trigger_data ::
  "js_env \<Rightarrow> (string \<times> jsval) list \<Rightarrow> (string \<times> jsval) list \<Rightarrow> nat \<Rightarrow> (string \<times> jsval) list" where
  "trigger_data env cfg tInput t =
     (let triggerData = [(''triggered'', JBool True), (''timestamp'', JNum (Date_now env t))]
      in if cfg_get cfg ''triggerType'' = JStr ''Webhook''
            \<and> js_truthy (cfg_get cfg ''webhookMockRequest'')
            \<and> tInput = []
         then
           (case JSON_parse env (cfg_get cfg ''webhookMockRequest'') of
              Inr mockData \<Rightarrow> js_assign triggerData (js_spread mockData)
            | Inl e \<Rightarrow> triggerData)
         else if tInput \<noteq> [] then js_assign triggerData tInput
         else triggerData)"

text \<open>
  Modelled from the spec: \<open>withStepLogging\<close> of \<open>step-handler\<close> is not among the sources.
  The spec gives the step context to every node execution "for logging/observability"
  with "no control-flow meaning", so the wrapper yields what the wrapped function yields.
\<close>

definition withStepLogging :: "(string \<times> jsval) list \<Rightarrow> js_error + jsval \<Rightarrow> js_error + jsval" where
  "withStepLogging input r = r"

text \<open>\<open>steps/condition.ts\<close>: \<open>evaluateCondition\<close> and \<open>conditionStep\<close>.\<close>

definition evaluateCondition :: "(string \<times> jsval) list \<Rightarrow> jsval" where
  "evaluateCondition input = JObj [(''condition'', cfg_get input ''condition'')]"

definition conditionStep :: step_function where
  "conditionStep input = withStepLogging input (Inr (evaluateCondition input))"

definition condition_module :: step_module where
  "condition_module name = (if name = ''conditionStep'' then Some conditionStep else None)"

definition SYSTEM_ACTIONS :: "js_env \<Rightarrow> (string \<times> StepImporter) list" where
  "SYSTEM_ACTIONS env =
     [(''Database Query'',
         \<lparr>importer = databaseQueryImporter env, stepFunction = ''databaseQueryStep''\<rparr>),
      (''HTTP Request'',
         \<lparr>importer = httpRequestImporter env, stepFunction = ''httpRequestStep''\<rparr>),
      (''Condition'',
         \<lparr>importer = Inr condition_module, stepFunction = ''conditionStep''\<rparr>)]"

text \<open>\<open>module[name](input)\<close>: a \<open>TypeError\<close> when the module has no such export.\<close>

definition call_export :: "step_module \<Rightarrow> string \<Rightarrow> (string \<times> jsval) list \<Rightarrow> js_error + jsval" where
  "call_export m name input =
     (case m name of
        None \<Rightarrow> Inl (JsError (''module['' @ name @ ''] is not a function''))
      | Some f \<Rightarrow> f input)"

definition failure_object :: "string \<Rightarrow> jsval" where
  "failure_object msg = JObj [(''success'', JBool False), (''error'', JStr msg)]"

text \<open>
  A configuration field read under the cast \<open>as string\<close> and tested for truthiness
  (\<open>actionType\<close>, \<open>triggerType\<close>): \<open>None\<close> when it is absent or falsy. The cast is taken at
  its word, the value being a string when it is truthy; any other truthy value is
  represented by its string conversion.
\<close>

definition cfg_string :: "js_env \<Rightarrow> (string \<times> jsval) list \<Rightarrow> string \<Rightarrow> string option" where
  "cfg_string env cfg k =
     (let v = cfg_get cfg k
      in if \<not> js_truthy v then None
         else (case v of JStr s \<Rightarrow> Some s | _ \<Rightarrow> Some (String_of env v)))"

definition config_or_empty :: "WorkflowNode \<Rightarrow> (string \<times> jsval) list" where
  "config_or_empty node = (case config node of None \<Rightarrow> [] | Some c \<Rightarrow> c)"

definition getNodeName :: "js_env \<Rightarrow> WorkflowNode \<Rightarrow> string" where
  "getNodeName env node =
     (if node_label node \<noteq> [] then node_label node
      else if node_type node = ''action'' then
        (case cfg_string env (config_or_empty node) ''actionType'' of
           Some actionType \<Rightarrow>
             (case getActionLabel env actionType of
                Some l \<Rightarrow> if l \<noteq> [] then l else ''Action''
              | None \<Rightarrow> ''Action'')
         | None \<Rightarrow> ''Action'')
      else if node_type node = ''trigger'' then
        (case cfg_string env (config_or_empty node) ''triggerType'' of
           Some triggerType \<Rightarrow> triggerType
         | None \<Rightarrow> ''Trigger'')
      else node_type node)"

definition step_context :: "js_env \<Rightarrow> string option \<Rightarrow> WorkflowNode \<Rightarrow> string \<Rightarrow> jsval" where
  "step_context env execId node actionType =
     JObj [(''executionId'', (case execId of None \<Rightarrow> JUndefined | Some e \<Rightarrow> JStr e)),
           (''nodeId'', JStr (node_id node)),
           (''nodeName'', JStr (getNodeName env node)),
           (''nodeType'', JStr actionType)]"

text \<open>
  The configuration with its templates resolved: the \<open>condition\<close> field is set aside,
  left out of the resolution and put back when it is not \<open>undefined\<close>.
\<close>

definition processed_config ::
  "js_env \<Rightarrow> (string \<times> jsval) list \<Rightarrow> NodeOutputs \<Rightarrow> (string \<times> jsval) list" where
  "processed_config env cfg outs =
     (let configWithoutCondition = js_set ''condition'' JUndefined cfg;
          originalCondition = cfg_get cfg ''condition'';
          processedConfig = processTemplates env configWithoutCondition outs
      in if originalCondition \<noteq> JUndefined
         then js_set ''condition'' originalCondition processedConfig
         else processedConfig)"

text \<open>
  The function handed to \<open>step.run\<close> for an action node. \<open>SYSTEM_ACTIONS[actionType]\<close> is
  truthy also for an action type that names an inherited member; calling the \<open>importer\<close>
  of such a member throws a \<open>TypeError\<close>.
\<close>

definition action_step ::
  "js_env \<Rightarrow> string \<Rightarrow> (string \<times> jsval) list \<Rightarrow> jsval \<Rightarrow> NodeOutputs \<Rightarrow> js_error + jsval" where
  \<open>action_step env actionType processedConfig stepContext outs =
     (let stepInput = AList.update ''_context'' stepContext processedConfig
      in if actionType = ''Condition'' then
           (case map_of (SYSTEM_ACTIONS env) ''Condition'' of
              None \<Rightarrow> Inl (JsError ''SYSTEM_ACTIONS.Condition is undefined'')
            | Some systemAction \<Rightarrow>
                (case importer systemAction of
                   Inl e \<Rightarrow> Inl e
                 | Inr m \<Rightarrow>
                     (let originalExpression = cfg_get stepInput ''condition'';
                          r = evaluateConditionExpression env originalExpression outs
                      in call_export m (stepFunction systemAction)
                           [(''condition'', JBool (result r)),
                            (''expression'',
                               (case originalExpression of
                                  JStr s \<Rightarrow> JStr s | _ \<Rightarrow> JUndefined)),
                            (''values'',
                               (if resolvedValues r \<noteq> [] then JObj (resolvedValues r)
                                else JUndefined)),
                            (''_context'', stepContext)])))
         else
           (case map_of (SYSTEM_ACTIONS env) actionType of
              Some systemAction \<Rightarrow>
                (case importer systemAction of
                   Inl e \<Rightarrow> Inl e
                 | Inr m \<Rightarrow> call_export m (stepFunction systemAction) stepInput)
            | None \<Rightarrow>
                if actionType \<in> set Object_prototype_members
                then Inl (JsError ''systemAction.importer is not a function'')
                else
                (case getStepImporter env actionType of
                   Some stepImporter \<Rightarrow>
                     (case importer stepImporter of
                        Inl e \<Rightarrow> Inl e
                      | Inr m \<Rightarrow>
                          (case m (stepFunction stepImporter) of
                             Some f \<Rightarrow> f stepInput
                           | None \<Rightarrow>
                               Inr (failure_object
                                 (''Step function "'' @ stepFunction stepImporter
                                    @ ''" not found for action "'' @ actionType @ ''"''))))
                 | None \<Rightarrow>
                     Inr (failure_object
                            (''Unknown action type: "'' @ actionType @ ''"'')))))\<close>

text \<open>The test for an explicit failure result, and the result recorded for a step result.\<close>

definition isErrorResult :: "jsval \<Rightarrow> bool" where
  "isErrorResult stepResult =
     (js_truthy stepResult \<and> typeof_object stepResult \<and> js_has stepResult ''success''
        \<and> js_get stepResult ''success'' = JBool False)"

definition action_result :: "string \<Rightarrow> jsval \<Rightarrow> ExecutionResult" where
  \<open>action_result actionType stepResult =
     (if isErrorResult stepResult then
        \<lparr>success = False, res_data = JUndefined,
         res_error =
           (if js_truthy (js_get stepResult ''error'') then js_get stepResult ''error''
            else JStr (''Step "'' @ actionType @ ''" failed''))\<rparr>
      else \<lparr>success = True, res_data = stepResult, res_error = JUndefined\<rparr>)\<close>

section \<open>Traversal orchestrator\<close>

text \<open>
  The state of a run: the two dictionaries \<open>outputs\<close> and \<open>results\<close>, the number of
  \<open>Date.now()\<close> readings taken so far, and the trace of the run's effects in program
  order: each \<open>step.run\<close> call and each assignment to \<open>results[nodeId]\<close> and to
  \<open>outputs[sanitizedNodeId]\<close>, under the id of the node that is being executed. An
  assignment is an event of the trace whatever it stores: \<open>results["__proto__"] = r\<close>
  replaces the prototype of \<open>results\<close>, which nothing reads, and adds no entry.
\<close>

datatype event = StepRun string | SetResult string | SetOutput string

record run_state =
  outputs :: NodeOutputs
  results :: "(string \<times> ExecutionResult) list"
  clock :: nat
  trace :: "event list"

definition set_result :: "string \<Rightarrow> ExecutionResult \<Rightarrow> run_state \<Rightarrow> run_state" where
  "set_result nodeId r st =
     st\<lparr>results := js_set nodeId r (results st), trace := trace st @ [SetResult nodeId]\<rparr>"

definition label_or_id :: "WorkflowNode \<Rightarrow> string \<Rightarrow> string" where
  "label_or_id node nodeId = (if node_label node \<noteq> [] then node_label node else nodeId)"

definition set_output :: "WorkflowNode \<Rightarrow> string \<Rightarrow> jsval \<Rightarrow> run_state \<Rightarrow> run_state" where
  "set_output node nodeId d st =
     st\<lparr>outputs := assign_output (sanitize nodeId)
                      \<lparr>out_label = label_or_id node nodeId, out_data = d\<rparr> (outputs st),
        trace := trace st @ [SetOutput nodeId]\<rparr>"

text \<open>\<open>nodeMap\<close> (a later node of the same id replaces an earlier one) and \<open>edgesBySource\<close>.\<close>

definition nodeMap :: "WorkflowExecutionInput \<Rightarrow> string \<Rightarrow> WorkflowNode option" where
  "nodeMap inp = map_of (rev (map (\<lambda>n. (node_id n, n)) (nodes inp)))"

definition edgesBySource :: "WorkflowExecutionInput \<Rightarrow> string \<Rightarrow> string list" where
  "edgesBySource inp nodeId = map target (filter (\<lambda>e. source e = nodeId) (edges inp))"

definition triggerNodes :: "WorkflowExecutionInput \<Rightarrow> WorkflowNode list" where
  "triggerNodes inp =
     filter (\<lambda>node. node_type node = ''trigger''
                    \<and> node_id node \<notin> set (map target (edges inp)))
            (nodes inp)"

text \<open>
  Modelled from the spec: \<open>step.run\<close> belongs to the external durable step substrate,
  which "given a stable step key and a zero-argument async function, executes it" and
  hands back its result. So a step yields what its function yields, an exception of the
  function is an exception of the step, and the call is an event of the run.
\<close>

definition step_run :: "string \<Rightarrow> js_error + 'a \<Rightarrow> run_state \<Rightarrow> (js_error + 'a) \<times> run_state" where
  "step_run nodeId body st = (body, st\<lparr>trace := trace st @ [StepRun nodeId]\<rparr>)"

text \<open>
  What the \<open>try\<close> block of \<open>executeNode\<close> does up to the point where \<open>result\<close> is known:
  it throws, it returns early (an action node without action type, whose result is
  recorded at once), or it has a result to store. The function of the trigger step reads
  the clock once.
\<close>

datatype node_outcome = Threw js_error | ReturnedEarly | Computed ExecutionResult

definition compute_result ::
  "js_env \<Rightarrow> WorkflowExecutionInput \<Rightarrow> WorkflowNode \<Rightarrow> string \<Rightarrow> run_state
     \<Rightarrow> node_outcome \<times> run_state" where
  \<open>compute_result env inp node nodeId st =
     (if node_type node = ''trigger'' then
        (case step_run nodeId
                (Inr \<lparr>success = True,
                      res_data = JObj (trigger_data env (config_or_empty node)
                                         (triggerInput inp) (clock st)),
                      res_error = JUndefined\<rparr>)
                (st\<lparr>clock := Suc (clock st)\<rparr>) of
           (Inl e, st1) \<Rightarrow> (Threw e, st1)
         | (Inr r, st1) \<Rightarrow> (Computed r, st1))
      else if node_type node = ''action'' then
        (case cfg_string env (config_or_empty node) ''actionType'' of
           None \<Rightarrow>
             (ReturnedEarly,
              set_result nodeId
                \<lparr>success = False, res_data = JUndefined,
                 res_error = JStr (''Action node "''
                   @ (if node_label node \<noteq> [] then node_label node else node_id node)
                   @ ''" has no action type configured'')\<rparr> st)
         | Some actionType \<Rightarrow>
             (let processedConfig = processed_config env (config_or_empty node) (outputs st);
                  stepContext = step_context env (executionId inp) node actionType
              in (case step_run nodeId
                         (action_step env actionType processedConfig stepContext (outputs st))
                         st of
                    (Inl e, st1) \<Rightarrow> (Threw e, st1)
                  | (Inr stepResult, st1) \<Rightarrow>
                      (Computed (action_result actionType stepResult), st1))))
      else
        (Computed \<lparr>success = False, res_data = JUndefined,
                   res_error = JStr (''Unknown node type "'' @ node_type node @ ''"'')\<rparr>,
         st))\<close>

definition isConditionNode :: "WorkflowNode \<Rightarrow> bool" where
  "isConditionNode node =
     (node_type node = ''action''
        \<and> cfg_get (config_or_empty node) ''actionType'' = JStr ''Condition'')"

text \<open>The sequential \<open>for\<close> loop over the successors, each call awaited before the next.\<close>

fun for_each :: "('a \<Rightarrow> 's \<Rightarrow> 's option) \<Rightarrow> 'a list \<Rightarrow> 's \<Rightarrow> 's option" where
  "for_each f [] s = Some s"
| "for_each f (x # xs) s = (case f x s of None \<Rightarrow> None | Some s1 \<Rightarrow> for_each f xs s1)"

text \<open>
  \<open>executeNode\<close>, on the visited set of the walk (in insertion order) and the state of the
  run. The first argument bounds the depth of the recursion: \<open>None\<close> is a walk that did not
  finish within the bound.
\<close>

primrec executeNode ::
  "nat \<Rightarrow> js_env \<Rightarrow> WorkflowExecutionInput \<Rightarrow> string \<Rightarrow> string list \<times> run_state
     \<Rightarrow> (string list \<times> run_state) option" where
  "executeNode 0 env inp nodeId vs = None"
| "executeNode (Suc k) env inp nodeId vs =
     (case vs of (visited, st) \<Rightarrow>
        if nodeId \<in> set visited then Some (visited, st)
        else
          (let visited1 = visited @ [nodeId]
           in case nodeMap inp nodeId of
                None \<Rightarrow> Some (visited1, st)
              | Some node \<Rightarrow>
                  if enabled node = Some False then
                    for_each (executeNode k env inp) (edgesBySource inp nodeId)
                      (visited1, set_output node nodeId JNull st)
                  else
                    (case compute_result env inp node nodeId st of
                       (Threw e, st1) \<Rightarrow>
                         Some (visited1,
                               set_result nodeId
                                 \<lparr>success = False, res_data = JUndefined,
                                  res_error = (case e of JsError msg \<Rightarrow> JStr msg)\<rparr> st1)
                     | (ReturnedEarly, st1) \<Rightarrow> Some (visited1, st1)
                     | (Computed r, st1) \<Rightarrow>
                         (let st2 = set_output node nodeId (res_data r)
                                      (set_result nodeId r st1)
                          in if success r then
                               if isConditionNode node then
                                 if js_get (res_data r) ''condition'' = JBool True
                                 then for_each (executeNode k env inp)
                                        (edgesBySource inp nodeId) (visited1, st2)
                                 else Some (visited1, st2)
                               else for_each (executeNode k env inp)
                                      (edgesBySource inp nodeId) (visited1, st2)
                             else Some (visited1, st2)))))"

text \<open>
  The walks of a run: one call of \<open>executeNode\<close> per trigger node, in the order of
  \<open>nodes\<close>, each with a fresh visited set, on the state the walk before left. The first
  clock reading is \<open>workflowStartTime\<close>. The recursion of a walk is never deeper than the
  number of nodes plus one (\<open>run_walks_total\<close> below).
\<close>

definition initial_state :: run_state where
  "initial_state = \<lparr>outputs = no_outputs, results = [], clock = 1, trace = []\<rparr>"

definition walk_from ::
  "js_env \<Rightarrow> WorkflowExecutionInput \<Rightarrow> WorkflowNode \<Rightarrow> run_state \<Rightarrow> run_state option" where
  "walk_from env inp trigger st =
     map_option snd
       (executeNode (Suc (length (nodes inp))) env inp (node_id trigger) ([], st))"

definition run_walks :: "js_env \<Rightarrow> WorkflowExecutionInput \<Rightarrow> run_state option" where
  "run_walks env inp = for_each (walk_from env inp) (triggerNodes inp) initial_state"




section \<open>Predicates for the invariants of a walk\<close>

text \<open>The node an event belongs to.\<close>

fun event_node :: "event \<Rightarrow> string" where
  "event_node (StepRun n) = n"
| "event_node (SetResult n) = n"
| "event_node (SetOutput n) = n"

text \<open>
  The condition under which \<open>executeNode\<close> goes on to the successors of a node whose result
  it has stored: the result is a success, and for a Condition node the \<open>condition\<close> field of
  its data is strictly \<open>true\<close>.
\<close>

definition proceeds :: "WorkflowNode \<Rightarrow> ExecutionResult \<Rightarrow> bool" where
  "proceeds node r =
     (success r
      \<and> (if isConditionNode node then js_get (res_data r) ''condition'' = JBool True
         else True))"

text \<open>A node that \<open>executeNode\<close> executes when it visits it: known and not disabled.\<close>

definition executes :: "WorkflowExecutionInput \<Rightarrow> string \<Rightarrow> bool" where
  "executes inp n =
     (case nodeMap inp n of None \<Rightarrow> False | Some node \<Rightarrow> enabled node \<noteq> Some False)"

text \<open>
  What the execution of one node \<open>n\<close> may change by itself: it adds events of \<open>n\<close>, none
  twice, among them the assignment of its result when \<open>n\<close> is executed, and touches
  \<open>results\<close> at \<open>n\<close> and what \<open>outputs\<close> stores under the sanitized id of \<open>n\<close> only.
\<close>

definition own_step :: "WorkflowExecutionInput \<Rightarrow> string \<Rightarrow> run_state \<Rightarrow> run_state \<Rightarrow> bool" where
  "own_step inp n st st1 =
     ((\<exists>new. trace st1 = trace st @ new \<and> distinct new \<and> event_node ` set new \<subseteq> {n}
             \<and> (executes inp n \<longrightarrow> SetResult n \<in> set new))
      \<and> (\<forall>m. m \<noteq> n \<longrightarrow> map_of (results st1) m = map_of (results st) m)
      \<and> (\<forall>K. K \<noteq> sanitize n \<longrightarrow> output_slot (outputs st1) K = output_slot (outputs st) K))"

text \<open>
  How a later point of a walk relates to an earlier one: the visited set has grown and is
  still free of repetitions; the trace has grown by events of newly visited nodes, none
  twice, with the assignment of the result of every newly visited node that is executed;
  \<open>results\<close> is unchanged outside the newly visited nodes, and so is what \<open>outputs\<close>
  stores outside their sanitized ids.
\<close>

definition extends ::
  "WorkflowExecutionInput \<Rightarrow> string list \<times> run_state \<Rightarrow> string list \<times> run_state \<Rightarrow> bool" where
  "extends inp s s' =
     (set (fst s) \<subseteq> set (fst s')
      \<and> (distinct (fst s) \<longrightarrow> distinct (fst s'))
      \<and> (\<exists>new. trace (snd s') = trace (snd s) @ new \<and> distinct new
            \<and> event_node ` set new \<subseteq> set (fst s') - set (fst s)
            \<and> (\<forall>m \<in> set (fst s') - set (fst s). executes inp m \<longrightarrow> SetResult m \<in> set new))
      \<and> (\<forall>m. m \<notin> set (fst s') - set (fst s)
            \<longrightarrow> map_of (results (snd s')) m = map_of (results (snd s)) m)
      \<and> (\<forall>K. K \<notin> sanitize ` (set (fst s') - set (fst s))
            \<longrightarrow> output_slot (outputs (snd s')) K = output_slot (outputs (snd s)) K))"

definition known_ids :: "WorkflowExecutionInput \<Rightarrow> string set" where
  "known_ids inp = node_id ` set (nodes inp)"


section \<open>A sample environment\<close>

text \<open>
  A small instance of the parameters, for evaluating the model on concrete workflows:
  a pre-validator that rejects \<open>;\<close>, a validator that also rejects braces (what an
  unresolved reference leaves behind), an evaluator that knows a lone variable \<open>__v0\<close>
  and the literals \<open>true\<close> and \<open>false\<close>, a parser that knows one JSON text, a clock that
  advances by one per reading, and a registry with the actions \<open>Echo\<close> (returns its
  input), \<open>Fail\<close> (returns an explicit failure), \<open>Throw\<close> (throws) and \<open>Require\<close>
  (returns its input when the field \<open>value\<close> is the string \<open>true\<close>, an explicit failure
  otherwise).
\<close>

definition sample_evalFunc :: "string list \<Rightarrow> jsval list \<Rightarrow> string \<Rightarrow> js_error + jsval" where
  "sample_evalFunc names vals body =
     (if body = ''true'' then Inr (JBool True)
      else if body = ''false'' then Inr (JBool False)
      else if body = ''__v0'' \<and> names \<noteq> [] \<and> vals \<noteq> [] then Inr (hd vals)
      else Inl (JsError ''SyntaxError''))"

definition sample_JSON_parse :: "jsval \<Rightarrow> js_error + jsval" where
  \<open>sample_JSON_parse v =
     (if v = JStr ''{"a":1}'' then Inr (JObj [(''a'', JNum 1)])
      else Inl (JsError ''SyntaxError''))\<close>

definition sample_String :: "jsval \<Rightarrow> string" where
  "sample_String v =
     (case v of
        JStr s \<Rightarrow> s
      | JBool b \<Rightarrow> (if b then ''true'' else ''false'')
      | JNum n \<Rightarrow> (if 0 \<le> n then nat_to_string (nat n) else ''-'' @ nat_to_string (nat (- n)))
      | JFunction name \<Rightarrow> ''function '' @ name @ ''() { [native code] }''
      | _ \<Rightarrow> ''[object Object]'')"

definition sample_module :: step_module where
  "sample_module name =
     (if name = ''echoStep'' then Some (\<lambda>input. Inr (JObj input))
      else if name = ''failStep'' then Some (\<lambda>input. Inr (failure_object ''boom''))
      else if name = ''throwStep'' then Some (\<lambda>input. Inl (JsError ''crash''))
      else if name = ''requireStep''
      then Some (\<lambda>input. if cfg_get input ''value'' = JStr ''true'' then Inr (JObj input)
                         else Inr (failure_object ''not ready''))
      else None)"

definition sample_registry :: "string \<Rightarrow> StepImporter option" where
  "sample_registry actionType =
     (if actionType = ''Echo'' then Some \<lparr>importer = Inr sample_module, stepFunction = ''echoStep''\<rparr>
      else if actionType = ''Fail'' then Some \<lparr>importer = Inr sample_module, stepFunction = ''failStep''\<rparr>
      else if actionType = ''Throw'' then Some \<lparr>importer = Inr sample_module, stepFunction = ''throwStep''\<rparr>
      else if actionType = ''Require''
      then Some \<lparr>importer = Inr sample_module, stepFunction = ''requireStep''\<rparr>
      else None)"

definition sample_env :: js_env where
  "sample_env =
     \<lparr>preValidateConditionExpression = (\<lambda>s. CHR '';'' \<notin> set s),
      validateConditionExpression =
        (\<lambda>s. CHR '';'' \<notin> set s \<and> CHR ''{'' \<notin> set s \<and> CHR ''}'' \<notin> set s),
      evalFunc = sample_evalFunc,
      JSON_parse = sample_JSON_parse,
      JSON_stringify = (\<lambda>v. ''[object]''),
      String_of = sample_String,
      Date_now = (\<lambda>n. 1000 + int n),
      getActionLabel = (\<lambda>a. None),
      getStepImporter = sample_registry,
      databaseQueryImporter = Inl (JsError ''module not found''),
      httpRequestImporter = Inl (JsError ''module not found''),
      logWorkflowCompleteDb = (\<lambda>p. None)\<rparr>"

text \<open>The outputs after a trigger \<open>T\<close> has run.\<close>

definition trigger_outputs :: NodeOutputs where
  "trigger_outputs =
     assign_output ''T''
       \<lparr>out_label = ''T'',
        out_data = JObj [(''triggered'', JBool True), (''timestamp'', JNum 1001)]\<rparr>
       no_outputs"

definition sample_outputs :: NodeOutputs where
  "sample_outputs =
     \<lparr>own_outputs = [(''n1'', \<lparr>out_label = ''First'', out_data = JNum 5\<rparr>)],
      replaced_prototype = None\<rparr>"

text \<open>Sample workflows: nodes without label, enabled by default.\<close>

definition sample_node :: "string \<Rightarrow> string \<Rightarrow> (string \<times> jsval) list \<Rightarrow> WorkflowNode" where
  "sample_node i t c =
     \<lparr>node_id = i, node_label = [], node_type = t, enabled = None, config = Some c\<rparr>"

definition sample_edge :: "string \<Rightarrow> string \<Rightarrow> WorkflowEdge" where
  "sample_edge a b = \<lparr>source = a, target = b\<rparr>"

definition sample_input :: "WorkflowNode list \<Rightarrow> WorkflowEdge list \<Rightarrow> WorkflowExecutionInput" where
  "sample_input ns es =
     \<lparr>nodes = ns, edges = es, triggerInput = [], executionId = None, workflowId = None\<rparr>"

definition shared_input :: WorkflowExecutionInput where
  "shared_input =
     sample_input
       [sample_node ''t1'' ''trigger'' [], sample_node ''t2'' ''trigger'' [],
        sample_node ''a'' ''action''
          [(''actionType'', JStr ''Echo''), (''msg'', JStr ''{{@t2:x.triggered}}'')]]
       [sample_edge ''t1'' ''a'', sample_edge ''t2'' ''a'']"

definition cycle_input :: WorkflowExecutionInput where
  "cycle_input =
     sample_input
       [sample_node ''A'' ''trigger'' [],
        sample_node ''B'' ''action'' [(''actionType'', JStr ''Echo'')]]
       [sample_edge ''A'' ''B'', sample_edge ''B'' ''A'']"

definition failing_input :: WorkflowExecutionInput where
  "failing_input =
     sample_input
       [sample_node ''t'' ''trigger'' [],
        sample_node ''f'' ''action'' [(''actionType'', JStr ''Fail'')],
        sample_node ''g'' ''action'' [(''actionType'', JStr ''Echo'')]]
       [sample_edge ''t'' ''f'', sample_edge ''f'' ''g'']"

definition throwing_input :: WorkflowExecutionInput where
  "throwing_input =
     sample_input
       [sample_node ''t'' ''trigger'' [],
        sample_node ''h'' ''action'' [(''actionType'', JStr ''Throw'')],
        sample_node ''g'' ''action'' [(''actionType'', JStr ''Echo'')]]
       [sample_edge ''t'' ''h'', sample_edge ''h'' ''g'']"


definition disabled_input :: WorkflowExecutionInput where
  "disabled_input =
     sample_input
       [sample_node ''t'' ''trigger'' [],
        (sample_node ''d'' ''action'' [(''actionType'', JStr ''Echo'')])
          \<lparr>node_label := ''Off'', enabled := Some False\<rparr>,
        sample_node ''x'' ''action'' [(''actionType'', JStr ''Echo'')],
        sample_node ''y'' ''action'' [(''actionType'', JStr ''Echo'')]]
       [sample_edge ''t'' ''d'', sample_edge ''d'' ''x'', sample_edge ''d'' ''y'']"

text \<open>
  The same workflow with the id \<open>--proto--\<close> for the disabled node, which sanitizes to
  \<open>__proto__\<close>, and a successor whose configuration refers to a node \<open>label\<close>.
\<close>

definition proto_input :: WorkflowExecutionInput where
  "proto_input =
     sample_input
       [sample_node ''t'' ''trigger'' [],
        (sample_node ''--proto--'' ''action'' [(''actionType'', JStr ''Echo'')])
          \<lparr>node_label := ''Off'', enabled := Some False\<rparr>,
        sample_node ''x'' ''action''
          [(''actionType'', JStr ''Echo''), (''msg'', JStr ''see {{@label:x}}'')],
        sample_node ''y'' ''action'' [(''actionType'', JStr ''Echo'')]]
       [sample_edge ''t'' ''--proto--'', sample_edge ''--proto--'' ''x'',
        sample_edge ''--proto--'' ''y'']"

definition condition_input :: "jsval \<Rightarrow> WorkflowExecutionInput" where
  "condition_input cond =
     sample_input
       [sample_node ''T'' ''trigger'' [],
        sample_node ''C'' ''action'' [(''actionType'', JStr ''Condition''), (''condition'', cond)],
        sample_node ''A'' ''action'' [(''actionType'', JStr ''Echo'')]]
       [sample_edge ''T'' ''C'', sample_edge ''C'' ''A'']"

text \<open>
  A workflow \<open>T \<rightarrow> C \<rightarrow> A\<close> whose Condition node has the id \<open>a.1\<close> and whose last node
  has the id \<open>a_1\<close>: both sanitize to \<open>a_1\<close>.
\<close>

definition collision_input :: "jsval \<Rightarrow> WorkflowExecutionInput" where
  "collision_input cond =
     sample_input
       [sample_node ''T'' ''trigger'' [],
        sample_node ''a.1'' ''action''
          [(''actionType'', JStr ''Condition''), (''condition'', cond)],
        sample_node ''a_1'' ''action'' [(''actionType'', JStr ''Echo'')]]
       [sample_edge ''T'' ''a.1'', sample_edge ''a.1'' ''a_1'']"

definition webhook_node :: WorkflowNode where
  \<open>webhook_node =
     sample_node ''T'' ''trigger''
       [(''triggerType'', JStr ''Webhook''), (''webhookMockRequest'', JStr ''{"a":1}'')]\<close>

definition webhook_input :: "(string \<times> jsval) list \<Rightarrow> WorkflowExecutionInput" where
  "webhook_input live = (sample_input [webhook_node] [])\<lparr>triggerInput := live\<rparr>"

text \<open>
  Observations of a state that a walk or a run may have reached: the entry of a node in
  \<open>results\<close>, an own property of its data, the entry under a key in \<open>outputs\<close>, what a
  lookup of \<open>outputs[key]\<close> yields, the trace.
\<close>

definition result_of :: "string \<Rightarrow> run_state option \<Rightarrow> ExecutionResult option" where
  "result_of n s = (case s of None \<Rightarrow> None | Some st \<Rightarrow> map_of (results st) n)"

definition result_field :: "string \<Rightarrow> string \<Rightarrow> run_state option \<Rightarrow> jsval option" where
  "result_field n k s =
     (case s of None \<Rightarrow> None
      | Some st \<Rightarrow> map_option (\<lambda>r. js_get (res_data r) k) (map_of (results st) n))"

definition output_of :: "string \<Rightarrow> run_state option \<Rightarrow> NodeOutput option" where
  "output_of key s =
     (case s of None \<Rightarrow> None | Some st \<Rightarrow> map_of (own_outputs (outputs st)) key)"

definition lookup_in :: "run_state option \<Rightarrow> string \<Rightarrow> jsval option" where
  "lookup_in s key = (case s of None \<Rightarrow> None | Some st \<Rightarrow> lookup_output (outputs st) key)"

definition trace_of :: "run_state option \<Rightarrow> event list" where
  "trace_of s = (case s of None \<Rightarrow> [] | Some st \<Rightarrow> trace st)"


definition walk_state :: "(string list \<times> run_state) option \<Rightarrow> run_state option" where
  "walk_state s = map_option snd s"

definition walk_visited :: "(string list \<times> run_state) option \<Rightarrow> string list" where
  "walk_visited s = (case s of None \<Rightarrow> [] | Some (vis, st) \<Rightarrow> vis)"

text \<open>
  Of a run, and of a walk with its visited set: the node ids with an entry in \<open>results\<close>,
  the keys with an entry in \<open>outputs\<close>, and the node output that has replaced the
  prototype of \<open>outputs\<close>.
\<close>

definition run_summary ::
  "run_state option \<Rightarrow> (string list \<times> string list \<times> NodeOutput option) option" where
  "run_summary s =
     map_option
       (\<lambda>st. (map fst (results st), map fst (own_outputs (outputs st)),
                replaced_prototype (outputs st)))
       s"

definition walk_summary ::
  "(string list \<times> run_state) option
     \<Rightarrow> (string list \<times> string list \<times> string list \<times> NodeOutput option) option" where
  "walk_summary s =
     map_option
       (\<lambda>(vis, st). (vis, map fst (results st), map fst (own_outputs (outputs st)),
                      replaced_prototype (outputs st)))
       s"

section \<open>Properties of the condition evaluator\<close>

lemma sample_substitution:
  "substitute_templates sample_outputs ''{{@n1:x}} === {{@missing:y}}'' =
     (''__v0 === {{@missing:y}}'', [(''__v0'', JNum 5)], 1,
      [(''x'', JNum 5), (''y'', JUndefined)])"
  by code_simp

lemma sample_substitution_plus:
  "substitute_templates sample_outputs ''{{@n1:x}} +'' =
     (''__v0 +'', [(''__v0'', JNum 5)], 1, [(''x'', JNum 5)])"
  by code_simp

lemma sample_substitution_plain:
  "substitute_templates sample_outputs ''a;b'' = (''a;b'', [], 0, [])"
  by code_simp

text \<open>
  Claim C1, as stated: every condition string that fails pre-validation, validation after
  substitution, or evaluation yields \<open>{result: false, resolvedValues: {}}\<close>. The sample
  evaluator refutes the second case: the expression below passes pre-validation, fails the
  validation after substitution (an unresolved reference is left in it), and the value
  returned carries the two values resolved during substitution.
\<close>

theorem evaluateConditionExpression_resolved_counterexample:
  "preValidateConditionExpression sample_env ''{{@n1:x}} === {{@missing:y}}''
   \<and> \<not> validateConditionExpression sample_env
         (fst (substitute_templates sample_outputs ''{{@n1:x}} === {{@missing:y}}''))
   \<and> evaluateConditionExpression sample_env
         (JStr ''{{@n1:x}} === {{@missing:y}}'') sample_outputs
        = \<lparr>result = False, resolvedValues = [(''x'', JNum 5), (''y'', JUndefined)]\<rparr>"
  by (simp add: evaluateConditionExpression_def evaluate_try_def sample_substitution
      sample_env_def)

text \<open>
  Claim C1, amended: for every condition string, with \<open>transformed\<close>, \<open>evalContext\<close> and
  \<open>resolved\<close> what the substitution leaves, the evaluator returns a result (no exception
  leaves it) whose \<open>result\<close> is false in all three failure cases; \<open>resolvedValues\<close> is
  empty when pre-validation fails and when the evaluation throws, and is the map of the
  values resolved during substitution when the validation after substitution fails.
\<close>

theorem evaluateConditionExpression_fails_closed:
  "(case substitute_templates outs s of
      (transformed, evalContext, varCounter, resolved) \<Rightarrow>
        (\<not> preValidateConditionExpression env s \<longrightarrow>
           evaluateConditionExpression env (JStr s) outs
             = \<lparr>result = False, resolvedValues = []\<rparr>)
      \<and> (preValidateConditionExpression env s
           \<and> \<not> validateConditionExpression env transformed \<longrightarrow>
           evaluateConditionExpression env (JStr s) outs
             = \<lparr>result = False, resolvedValues = resolved\<rparr>)
      \<and> (preValidateConditionExpression env s
           \<and> validateConditionExpression env transformed
           \<and> (\<exists>e. evalFunc env (map fst evalContext) (map snd evalContext) transformed
                     = Inl e) \<longrightarrow>
           evaluateConditionExpression env (JStr s) outs
             = \<lparr>result = False, resolvedValues = []\<rparr>))"
proof (cases "substitute_templates outs s")
  case (fields transformed evalContext varCounter resolved)
  have pre: "evaluateConditionExpression env (JStr s) outs
               = \<lparr>result = False, resolvedValues = []\<rparr>"
    if "\<not> preValidateConditionExpression env s"
    using that by (simp add: evaluateConditionExpression_def)
  have post: "evaluateConditionExpression env (JStr s) outs
                = \<lparr>result = False, resolvedValues = resolved\<rparr>"
    if "preValidateConditionExpression env s"
      and "\<not> validateConditionExpression env transformed"
    using that fields by (simp add: evaluateConditionExpression_def evaluate_try_def)
  have thrown: "evaluateConditionExpression env (JStr s) outs
                  = \<lparr>result = False, resolvedValues = []\<rparr>"
    if "preValidateConditionExpression env s"
      and "validateConditionExpression env transformed"
      and "evalFunc env (map fst evalContext) (map snd evalContext) transformed = Inl e"
    for e
    using that fields by (simp add: evaluateConditionExpression_def evaluate_try_def)
  from pre post thrown show ?thesis
    unfolding fields by auto
qed

theorem evaluateConditionExpression_fails_closed_witness:
  "evaluateConditionExpression sample_env (JStr ''a;b'') sample_outputs
     = \<lparr>result = False, resolvedValues = []\<rparr>
   \<and> evaluateConditionExpression sample_env
         (JStr ''{{@n1:x}} === {{@missing:y}}'') sample_outputs
       = \<lparr>result = False, resolvedValues = [(''x'', JNum 5), (''y'', JUndefined)]\<rparr>
   \<and> evaluateConditionExpression sample_env (JStr ''{{@n1:x}} +'') sample_outputs
       = \<lparr>result = False, resolvedValues = []\<rparr>"
proof -
  have a: "evaluateConditionExpression sample_env (JStr ''a;b'') sample_outputs
             = \<lparr>result = False, resolvedValues = []\<rparr>"
    using evaluateConditionExpression_fails_closed
            [where outs = sample_outputs and s = "''a;b''" and env = sample_env]
    by (simp add: sample_substitution_plain sample_env_def)
  have b: "evaluateConditionExpression sample_env
             (JStr ''{{@n1:x}} === {{@missing:y}}'') sample_outputs
           = \<lparr>result = False, resolvedValues = [(''x'', JNum 5), (''y'', JUndefined)]\<rparr>"
    using evaluateConditionExpression_fails_closed
            [where outs = sample_outputs and s = "''{{@n1:x}} === {{@missing:y}}''"
               and env = sample_env]
    by (simp add: sample_substitution sample_env_def)
  have c: "evaluateConditionExpression sample_env (JStr ''{{@n1:x}} +'') sample_outputs
             = \<lparr>result = False, resolvedValues = []\<rparr>"
    using evaluateConditionExpression_fails_closed
            [where outs = sample_outputs and s = "''{{@n1:x}} +''" and env = sample_env]
    by (simp add: sample_substitution_plus sample_env_def sample_evalFunc_def)
  from a b c show ?thesis by simp
qed

text \<open>
  Claim C10: a condition value that is neither a boolean nor a string yields
  \<open>{result: Boolean(value), resolvedValues: {}}\<close>, whatever the validators and the
  evaluator of the environment are: none of them is consulted.
\<close>

theorem evaluateConditionExpression_other_value:
  "(\<forall>b. v \<noteq> JBool b) \<Longrightarrow> (\<forall>s. v \<noteq> JStr s) \<Longrightarrow>
   evaluateConditionExpression env v outs = \<lparr>result = js_truthy v, resolvedValues = []\<rparr>"
  by (cases v) (simp_all add: evaluateConditionExpression_def)

theorem evaluateConditionExpression_other_value_witness:
  "evaluateConditionExpression sample_env (JNum 7) no_outputs
     = \<lparr>result = True, resolvedValues = []\<rparr>
   \<and> evaluateConditionExpression sample_env JUndefined no_outputs
       = \<lparr>result = False, resolvedValues = []\<rparr>
   \<and> evaluateConditionExpression sample_env (JObj []) no_outputs
       = \<lparr>result = True, resolvedValues = []\<rparr>"
  using evaluateConditionExpression_other_value
          [where v = "JNum 7" and env = sample_env and outs = no_outputs]
        evaluateConditionExpression_other_value
          [where v = JUndefined and env = sample_env and outs = no_outputs]
        evaluateConditionExpression_other_value
          [where v = "JObj []" and env = sample_env and outs = no_outputs]
  by simp

section \<open>Invariants and termination of a walk\<close>

lemma extends_refl: "extends inp s s"
  by (simp add: extends_def)

lemma extends_trans:
  assumes ab: "extends inp a b" and bc: "extends inp b c"
  shows "extends inp a c"
proof -
  from ab obtain n1 where n1: "trace (snd b) = trace (snd a) @ n1" "distinct n1"
      "event_node ` set n1 \<subseteq> set (fst b) - set (fst a)"
      "\<forall>m \<in> set (fst b) - set (fst a). executes inp m \<longrightarrow> SetResult m \<in> set n1"
    unfolding extends_def by blast
  from bc obtain n2 where n2: "trace (snd c) = trace (snd b) @ n2" "distinct n2"
      "event_node ` set n2 \<subseteq> set (fst c) - set (fst b)"
      "\<forall>m \<in> set (fst c) - set (fst b). executes inp m \<longrightarrow> SetResult m \<in> set n2"
    unfolding extends_def by blast
  from ab bc have sub: "set (fst a) \<subseteq> set (fst b)" "set (fst b) \<subseteq> set (fst c)"
    by (auto simp: extends_def)
  have disj: "set n1 \<inter> set n2 = {}"
  proof (rule ccontr)
    assume "set n1 \<inter> set n2 \<noteq> {}"
    then obtain e where "e \<in> set n1" "e \<in> set n2" by auto
    with n1(3) n2(3) have "event_node e \<in> set (fst b)" "event_node e \<notin> set (fst b)"
      by auto
    then show False by simp
  qed
  have tr: "trace (snd c) = trace (snd a) @ (n1 @ n2)" using n1 n2 by simp
  have dn: "distinct (n1 @ n2)" using n1 n2 disj by simp
  have ev: "event_node ` set (n1 @ n2) \<subseteq> set (fst c) - set (fst a)"
    using n1(3) n2(3) sub by auto
  have ex: "\<forall>m \<in> set (fst c) - set (fst a). executes inp m \<longrightarrow> SetResult m \<in> set (n1 @ n2)"
  proof (intro ballI impI)
    fix m
    assume m: "m \<in> set (fst c) - set (fst a)" and e: "executes inp m"
    show "SetResult m \<in> set (n1 @ n2)"
    proof (cases "m \<in> set (fst b)")
      case True
      with m n1(4) e show ?thesis by simp
    next
      case False
      with m n2(4) e show ?thesis by simp
    qed
  qed
  have res: "map_of (results (snd c)) m = map_of (results (snd a)) m"
    if "m \<notin> set (fst c) - set (fst a)" for m
  proof -
    from that sub have "m \<notin> set (fst c) - set (fst b)" "m \<notin> set (fst b) - set (fst a)"
      by auto
    with ab bc show ?thesis by (simp add: extends_def)
  qed
  have out: "output_slot (outputs (snd c)) K = output_slot (outputs (snd a)) K"
    if "K \<notin> sanitize ` (set (fst c) - set (fst a))" for K
  proof -
    from that sub have "K \<notin> sanitize ` (set (fst c) - set (fst b))"
      "K \<notin> sanitize ` (set (fst b) - set (fst a))"
      by auto
    with ab bc show ?thesis by (simp add: extends_def)
  qed
  from ab bc have di: "distinct (fst a) \<longrightarrow> distinct (fst c)" by (simp add: extends_def)
  show ?thesis
    unfolding extends_def using sub di tr dn ev ex res out by blast
qed

lemma for_each_extends:
  assumes step: "\<And>x s s'. x \<in> set xs \<Longrightarrow> f x s = Some s' \<Longrightarrow> extends inp s s'"
    and run: "for_each f xs s = Some s'"
  shows "extends inp s s'"
  using assms
proof (induction xs arbitrary: s)
  case Nil
  then show ?case by (simp add: extends_refl)
next
  case (Cons x xs)
  from Cons.prems(2) obtain s1 where s1: "f x s = Some s1" "for_each f xs s1 = Some s'"
    by (auto split: option.splits)
  have "extends inp s s1" using Cons.prems(1) [of x s s1] s1(1) by simp
  moreover have "extends inp s1 s'"
  proof (rule Cons.IH [OF _ s1(2)])
    fix y t t'
    assume "y \<in> set xs" "f y t = Some t'"
    then show "extends inp t t'" using Cons.prems(1) [of y t t'] by simp
  qed
  ultimately show ?case by (rule extends_trans)
qed

lemma own_step_extends:
  assumes "own_step inp n st st1" and "n \<notin> set vis"
  shows "extends inp (vis, st) (vis @ [n], st1)"
proof -
  from assms(1) obtain new where new: "trace st1 = trace st @ new" "distinct new"
      "event_node ` set new \<subseteq> {n}" "executes inp n \<longrightarrow> SetResult n \<in> set new"
    unfolding own_step_def by blast
  have d: "set (vis @ [n]) - set vis = {n}" using assms(2) by auto
  have ev: "event_node ` set new \<subseteq> set (vis @ [n]) - set vis"
    using new(3) d by simp
  have ex: "\<forall>m \<in> set (vis @ [n]) - set vis. executes inp m \<longrightarrow> SetResult m \<in> set new"
    using new(4) d by simp
  have res: "\<forall>m. m \<notin> set (vis @ [n]) - set vis
               \<longrightarrow> map_of (results st1) m = map_of (results st) m"
    using assms(1) d by (simp add: own_step_def)
  have out: "\<forall>K. K \<notin> sanitize ` (set (vis @ [n]) - set vis)
               \<longrightarrow> output_slot (outputs st1) K = output_slot (outputs st) K"
    using assms(1) d by (simp add: own_step_def)
  have "\<exists>new. trace st1 = trace st @ new \<and> distinct new
          \<and> event_node ` set new \<subseteq> set (vis @ [n]) - set vis
          \<and> (\<forall>m \<in> set (vis @ [n]) - set vis. executes inp m \<longrightarrow> SetResult m \<in> set new)"
    using new(1,2) ev ex by blast
  then show ?thesis
    unfolding extends_def fst_conv snd_conv
    using res out assms(2) by auto
qed

lemma own_step_unknown: "nodeMap inp n = None \<Longrightarrow> own_step inp n st st"
  by (simp add: own_step_def executes_def)

lemma own_step_disabled:
  "nodeMap inp n = Some node \<Longrightarrow> enabled node = Some False \<Longrightarrow>
   own_step inp n st (set_output node n d st)"
  by (simp add: own_step_def executes_def set_output_def assign_output_def output_slot_def
      update_conv')

lemma compute_result_trace:
  "compute_result env inp node n st = (oc, st1) \<Longrightarrow>
   outputs st1 = outputs st
   \<and> (oc \<noteq> ReturnedEarly \<longrightarrow>
        results st1 = results st
        \<and> (trace st1 = trace st \<or> trace st1 = trace st @ [StepRun n]))
   \<and> (oc = ReturnedEarly \<longrightarrow>
        trace st1 = trace st @ [SetResult n]
        \<and> (\<forall>m. m \<noteq> n \<longrightarrow> map_of (results st1) m = map_of (results st) m))"
  by (auto simp add: compute_result_def step_run_def set_result_def js_set_def update_conv'
      Let_def split: if_splits option.splits sum.splits)

lemma own_step_threw:
  assumes "compute_result env inp node n st = (Threw e, st1)"
  shows "own_step inp n st (set_result n r st1)"
proof -
  from compute_result_trace [OF assms]
  have f: "results st1 = results st" "outputs st1 = outputs st"
    "trace st1 = trace st \<or> trace st1 = trace st @ [StepRun n]"
    by auto
  from f(3) have "\<exists>new. trace (set_result n r st1) = trace st @ new \<and> distinct new
      \<and> event_node ` set new \<subseteq> {n} \<and> SetResult n \<in> set new"
    by (auto simp add: set_result_def)
  with f(1,2) show ?thesis
    unfolding own_step_def by (auto simp add: set_result_def js_set_def update_conv')
qed

lemma own_step_early:
  assumes "compute_result env inp node n st = (ReturnedEarly, st1)"
  shows "own_step inp n st st1"
proof -
  from compute_result_trace [OF assms]
  have f: "outputs st1 = outputs st" "trace st1 = trace st @ [SetResult n]"
    "\<forall>m. m \<noteq> n \<longrightarrow> map_of (results st1) m = map_of (results st) m"
    by auto
  from f(2) have "\<exists>new. trace st1 = trace st @ new \<and> distinct new
      \<and> event_node ` set new \<subseteq> {n} \<and> SetResult n \<in> set new"
    by auto
  with f(1,3) show ?thesis
    unfolding own_step_def by auto
qed

lemma own_step_computed:
  assumes "compute_result env inp node n st = (Computed r, st1)"
  shows "own_step inp n st (set_output node n d (set_result n r' st1))"
proof -
  from compute_result_trace [OF assms]
  have f: "results st1 = results st" "outputs st1 = outputs st"
    "trace st1 = trace st \<or> trace st1 = trace st @ [StepRun n]"
    by auto
  from f(3) have "\<exists>new. trace (set_output node n d (set_result n r' st1)) = trace st @ new
      \<and> distinct new \<and> event_node ` set new \<subseteq> {n} \<and> SetResult n \<in> set new"
    by (auto simp add: set_result_def set_output_def)
  with f(1,2) show ?thesis
    unfolding own_step_def
    by (auto simp add: set_result_def set_output_def js_set_def assign_output_def
        output_slot_def update_conv')
qed

lemma executeNode_visited:
  "n \<in> set vis \<Longrightarrow> executeNode (Suc k) env inp n (vis, st) = Some (vis, st)"
  by simp

lemma executeNode_unknown:
  "n \<notin> set vis \<Longrightarrow> nodeMap inp n = None \<Longrightarrow>
   executeNode (Suc k) env inp n (vis, st) = Some (vis @ [n], st)"
  by simp

lemma executeNode_disabled:
  "n \<notin> set vis \<Longrightarrow> nodeMap inp n = Some node \<Longrightarrow> enabled node = Some False \<Longrightarrow>
   executeNode (Suc k) env inp n (vis, st) =
     for_each (executeNode k env inp) (edgesBySource inp n)
       (vis @ [n], set_output node n JNull st)"
  by simp

lemma executeNode_threw:
  "n \<notin> set vis \<Longrightarrow> nodeMap inp n = Some node \<Longrightarrow> enabled node \<noteq> Some False \<Longrightarrow>
   compute_result env inp node n st = (Threw (JsError msg), st1) \<Longrightarrow>
   executeNode (Suc k) env inp n (vis, st) =
     Some (vis @ [n],
           set_result n \<lparr>success = False, res_data = JUndefined, res_error = JStr msg\<rparr> st1)"
  by simp

lemma executeNode_early:
  "n \<notin> set vis \<Longrightarrow> nodeMap inp n = Some node \<Longrightarrow> enabled node \<noteq> Some False \<Longrightarrow>
   compute_result env inp node n st = (ReturnedEarly, st1) \<Longrightarrow>
   executeNode (Suc k) env inp n (vis, st) = Some (vis @ [n], st1)"
  by simp

lemma executeNode_stops:
  "n \<notin> set vis \<Longrightarrow> nodeMap inp n = Some node \<Longrightarrow> enabled node \<noteq> Some False \<Longrightarrow>
   compute_result env inp node n st = (Computed r, st1) \<Longrightarrow> \<not> proceeds node r \<Longrightarrow>
   executeNode (Suc k) env inp n (vis, st) =
     Some (vis @ [n], set_output node n (res_data r) (set_result n r st1))"
  by (auto simp add: proceeds_def Let_def split: if_splits)

lemma executeNode_proceeds:
  "n \<notin> set vis \<Longrightarrow> nodeMap inp n = Some node \<Longrightarrow> enabled node \<noteq> Some False \<Longrightarrow>
   compute_result env inp node n st = (Computed r, st1) \<Longrightarrow> proceeds node r \<Longrightarrow>
   executeNode (Suc k) env inp n (vis, st) =
     for_each (executeNode k env inp) (edgesBySource inp n)
       (vis @ [n], set_output node n (res_data r) (set_result n r st1))"
  by (auto simp add: proceeds_def Let_def split: if_splits)

declare executeNode.simps(2) [simp del]

lemma executeNode_extends:
  "executeNode k env inp n s = Some s' \<Longrightarrow> extends inp s s' \<and> n \<in> set (fst s')"
proof (induction k arbitrary: n s s')
  case 0
  then show ?case by simp
next
  case (Suc k)
  obtain vis st where s: "s = (vis, st)" by (cases s)
  have loop: "extends inp (vis @ [n], st1) s' \<and> n \<in> set (fst s')"
    if r: "for_each (executeNode k env inp) (edgesBySource inp n) (vis @ [n], st1) = Some s'"
    for st1
  proof -
    have "extends inp t t'" if "executeNode k env inp x t = Some t'" for x t t'
      using Suc.IH [OF that] by simp
    then have e: "extends inp (vis @ [n], st1) s'"
      using for_each_extends [where f = "executeNode k env inp", OF _ r] by blast
    then have "set (vis @ [n]) \<subseteq> set (fst s')" by (simp add: extends_def)
    with e show ?thesis by simp
  qed
  show ?case
  proof (cases "n \<in> set vis")
    case True
    from Suc.prems have "s' = (vis, st)"
      unfolding s executeNode_visited [OF True] by simp
    with s True show ?thesis by (simp add: extends_refl)
  next
    case False
    note nv = this
    show ?thesis
    proof (cases "nodeMap inp n")
      case None
      from Suc.prems have "s' = (vis @ [n], st)"
        unfolding s executeNode_unknown [OF nv None] by simp
      with s own_step_extends [OF own_step_unknown [OF None] nv] show ?thesis by simp
    next
      case (Some node)
      show ?thesis
      proof (cases "enabled node = Some False")
        case True
        from Suc.prems
        have r: "for_each (executeNode k env inp) (edgesBySource inp n)
                  (vis @ [n], set_output node n JNull st) = Some s'"
          unfolding s executeNode_disabled [OF nv Some True] .
        from loop [OF r] own_step_extends [OF own_step_disabled [OF Some True] nv] s
        show ?thesis by (blast intro: extends_trans)
      next
        case False
        note en = this
        obtain oc st1 where cr: "compute_result env inp node n st = (oc, st1)"
          by (cases "compute_result env inp node n st")
        show ?thesis
        proof (cases oc)
          case (Threw e)
          obtain msg where e: "e = JsError msg" by (cases e)
          from Suc.prems have "s' = (vis @ [n], set_result n
                  \<lparr>success = False, res_data = JUndefined, res_error = JStr msg\<rparr> st1)"
            unfolding s executeNode_threw [OF nv Some en cr [unfolded Threw e]] by simp
          with own_step_extends [OF own_step_threw nv] cr Threw s show ?thesis by simp
        next
          case ReturnedEarly
          from Suc.prems have "s' = (vis @ [n], st1)"
            unfolding s executeNode_early [OF nv Some en cr [unfolded ReturnedEarly]] by simp
          with own_step_extends [OF own_step_early nv] cr ReturnedEarly s show ?thesis by simp
        next
          case (Computed r)
          let ?st2 = "set_output node n (res_data r) (set_result n r st1)"
          have own: "extends inp s (vis @ [n], ?st2)"
            using own_step_extends [OF own_step_computed nv] cr Computed s by simp
          show ?thesis
          proof (cases "proceeds node r")
            case False
            from Suc.prems have "s' = (vis @ [n], ?st2)"
              unfolding s executeNode_stops [OF nv Some en cr [unfolded Computed] False] by simp
            with own show ?thesis by simp
          next
            case True
            from Suc.prems
            have go: "for_each (executeNode k env inp) (edgesBySource inp n) (vis @ [n], ?st2) = Some s'"
              unfolding s executeNode_proceeds [OF nv Some en cr [unfolded Computed] True] .
            from loop [OF go] own show ?thesis by (blast intro: extends_trans)
          qed
        qed
      qed
    qed
  qed
qed


lemma nodeMap_known: "nodeMap inp n = Some node \<Longrightarrow> n \<in> known_ids inp"
  by (auto simp add: nodeMap_def known_ids_def dest!: map_of_SomeD)

lemma for_each_total:
  assumes "\<And>x s. P s \<Longrightarrow> \<exists>s'. f x s = Some s' \<and> P s'" and "P s"
  shows "\<exists>s'. for_each f xs s = Some s' \<and> P s'"
  using assms(2)
proof (induction xs arbitrary: s)
  case Nil
  then show ?case by simp
next
  case (Cons x xs)
  from assms(1) [OF Cons.prems] obtain s1 where s1: "f x s = Some s1" "P s1" by blast
  from Cons.IH [OF s1(2)] s1(1) show ?case by simp
qed

lemma executeNode_total:
  "card (known_ids inp - set vis) < k \<Longrightarrow> \<exists>s'. executeNode k env inp n (vis, st) = Some s'"
proof (induction k arbitrary: n vis st)
  case 0
  then show ?case by simp
next
  case (Suc k)
  have fin: "finite (known_ids inp - V)" for V by (simp add: known_ids_def)
  have loop: "\<exists>s'. for_each (executeNode k env inp) xs (vis @ [n], st1) = Some s'"
    if nk: "n \<in> known_ids inp" and nv: "n \<notin> set vis" for xs st1
  proof -
    let ?P = "\<lambda>s. card (known_ids inp - set (fst s)) < k"
    have step: "\<exists>s'. executeNode k env inp x s = Some s' \<and> ?P s'" if "?P s" for x s
    proof -
      obtain v t where s: "s = (v, t)" by (cases s)
      from Suc.IH [of v x t] that s obtain s' where s': "executeNode k env inp x s = Some s'"
        by auto
      from executeNode_extends [OF s'] have "set (fst s) \<subseteq> set (fst s')"
        by (simp add: extends_def)
      then have "known_ids inp - set (fst s') \<subseteq> known_ids inp - set (fst s)" by auto
      then have "card (known_ids inp - set (fst s')) \<le> card (known_ids inp - set (fst s))"
        by (rule card_mono [OF fin])
      with that s' show ?thesis by auto
    qed
    have "known_ids inp - set (vis @ [n]) \<subset> known_ids inp - set vis"
      using nk nv by auto
    then have "card (known_ids inp - set (vis @ [n])) < card (known_ids inp - set vis)"
      by (rule psubset_card_mono [OF fin])
    with Suc.prems have init: "?P (vis @ [n], st1)" by simp
    from for_each_total [where P = ?P and f = "executeNode k env inp", OF step init]
    show ?thesis by blast
  qed
  show ?case
  proof (cases "n \<in> set vis")
    case True
    then show ?thesis by (simp add: executeNode_visited)
  next
    case False
    note nv = this
    show ?thesis
    proof (cases "nodeMap inp n")
      case None
      with nv show ?thesis by (simp add: executeNode_unknown)
    next
      case (Some node)
      note nk = nodeMap_known [OF Some]
      show ?thesis
      proof (cases "enabled node = Some False")
        case True
        show ?thesis
          unfolding executeNode_disabled [OF nv Some True] by (rule loop [OF nk nv])
      next
        case False
        note en = this
        obtain oc st1 where cr: "compute_result env inp node n st = (oc, st1)"
          by (cases "compute_result env inp node n st")
        show ?thesis
        proof (cases oc)
          case (Threw e)
          obtain msg where e: "e = JsError msg" by (cases e)
          show ?thesis
            unfolding executeNode_threw [OF nv Some en cr [unfolded Threw e]] by simp
        next
          case ReturnedEarly
          show ?thesis
            unfolding executeNode_early [OF nv Some en cr [unfolded ReturnedEarly]] by simp
        next
          case (Computed r)
          show ?thesis
          proof (cases "proceeds node r")
            case False
            show ?thesis
              unfolding executeNode_stops [OF nv Some en cr [unfolded Computed] False] by simp
          next
            case True
            show ?thesis
              unfolding executeNode_proceeds [OF nv Some en cr [unfolded Computed] True]
              by (rule loop [OF nk nv])
          qed
        qed
      qed
    qed
  qed
qed



lemma for_each_executeNode:
  "for_each (executeNode k env inp) xs s = Some s' \<Longrightarrow>
   extends inp s s' \<and> set xs \<subseteq> set (fst s')"
proof (induction xs arbitrary: s)
  case Nil
  then show ?case by (simp add: extends_refl)
next
  case (Cons x xs)
  from Cons.prems obtain s1 where s1: "executeNode k env inp x s = Some s1"
      "for_each (executeNode k env inp) xs s1 = Some s'"
    by (auto split: option.splits)
  from executeNode_extends [OF s1(1)] have a: "extends inp s s1" "x \<in> set (fst s1)" by auto
  from Cons.IH [OF s1(2)] have b: "extends inp s1 s'" "set xs \<subseteq> set (fst s')" by auto
  from b(1) have "set (fst s1) \<subseteq> set (fst s')" by (simp add: extends_def)
  with a b show ?case by (auto intro: extends_trans)
qed


lemma compute_result_early_result:
  "compute_result env inp node n st = (ReturnedEarly, st1) \<Longrightarrow> n \<noteq> ''__proto__'' \<Longrightarrow>
   map_of (results st1) n \<noteq> None"
  by (auto simp add: compute_result_def step_run_def set_result_def js_set_def update_conv'
      Let_def split: if_splits option.splits sum.splits)

lemma executed_has_result:
  assumes nv: "n \<notin> set vis" and nm: "nodeMap inp n = Some node"
    and en: "enabled node \<noteq> Some False"
    and np: "n \<noteq> ''__proto__''"
    and run: "executeNode (Suc k) env inp n (vis, st) = Some (vis', st')"
  shows "map_of (results st') n \<noteq> None"
proof -
  have loop: "map_of (results st') n \<noteq> None"
    if r: "for_each (executeNode k env inp) (edgesBySource inp n) (vis @ [n], st2) = Some (vis', st')"
      and h: "map_of (results st2) n \<noteq> None" for st2
  proof -
    from for_each_executeNode [OF r] have "extends inp (vis @ [n], st2) (vis', st')" by simp
    then have "map_of (results st') n = map_of (results st2) n"
      unfolding extends_def fst_conv snd_conv by auto
    with h show ?thesis by simp
  qed
  obtain oc st1 where cr: "compute_result env inp node n st = (oc, st1)"
    by (cases "compute_result env inp node n st")
  show ?thesis
  proof (cases oc)
    case (Threw e)
    obtain msg where e: "e = JsError msg" by (cases e)
    from run np show ?thesis
      unfolding executeNode_threw [OF nv nm en cr [unfolded Threw e]]
      by (auto simp add: set_result_def js_set_def update_conv')
  next
    case ReturnedEarly
    from run compute_result_early_result [OF cr [unfolded ReturnedEarly] np] show ?thesis
      unfolding executeNode_early [OF nv nm en cr [unfolded ReturnedEarly]] by auto
  next
    case (Computed r)
    let ?st2 = "set_output node n (res_data r) (set_result n r st1)"
    have h: "map_of (results ?st2) n \<noteq> None"
      using np by (simp add: set_result_def set_output_def js_set_def update_conv')
    show ?thesis
    proof (cases "proceeds node r")
      case False
      from run h show ?thesis
        unfolding executeNode_stops [OF nv nm en cr [unfolded Computed] False] by auto
    next
      case True
      from run have "for_each (executeNode k env inp) (edgesBySource inp n) (vis @ [n], ?st2)
                       = Some (vis', st')"
        unfolding executeNode_proceeds [OF nv nm en cr [unfolded Computed] True] .
      from loop [OF this h] show ?thesis .
    qed
  qed
qed

lemma condition_compute:
  assumes "isConditionNode C"
  shows "compute_result env inp C c st =
     (Computed \<lparr>success = True,
                res_data = JObj [(''condition'',
                  JBool (result (evaluateConditionExpression env
                    (cfg_get (AList.update ''_context''
                                (step_context env (executionId inp) C ''Condition'')
                                (processed_config env (config_or_empty C) (outputs st)))
                       ''condition'')
                    (outputs st))))],
                res_error = JUndefined\<rparr>,
      st\<lparr>trace := trace st @ [StepRun c]\<rparr>)"
proof -
  from assms have ty: "node_type C = ''action''"
    and at: "cfg_get (config_or_empty C) ''actionType'' = JStr ''Condition''"
    by (simp_all add: isConditionNode_def)
  from at have cs: "cfg_string env (config_or_empty C) ''actionType'' = Some ''Condition''"
    by (simp add: cfg_string_def)
  have step: "action_step env ''Condition'' pc ctx outs =
      Inr (JObj [(''condition'',
             JBool (result (evaluateConditionExpression env
                (cfg_get (AList.update ''_context'' ctx pc) ''condition'') outs)))])"
    for pc ctx outs
    by (simp add: action_step_def SYSTEM_ACTIONS_def call_export_def condition_module_def
        conditionStep_def withStepLogging_def evaluateCondition_def cfg_get_def Let_def)
  have ok: "action_result ''Condition'' (JObj [(''condition'', JBool b)]) =
      \<lparr>success = True, res_data = JObj [(''condition'', JBool b)], res_error = JUndefined\<rparr>"
    for b
    by (simp add: action_result_def isErrorResult_def)
  show ?thesis
    using ty cs by (simp add: compute_result_def step_run_def step ok Let_def)
qed

lemma processTemplates_lookup:
  "k \<noteq> ''__proto__'' \<Longrightarrow>
   map_of (fold (\<lambda>(key, v) processed. js_set key (g v) processed) cfg acc) k =
     (case map_of (rev cfg) k of None \<Rightarrow> map_of acc k | Some v \<Rightarrow> Some (g v))"
proof (induction cfg arbitrary: acc)
  case Nil
  then show ?case by simp
next
  case (Cons p cfg)
  obtain key v where p: "p = (key, v)" by (cases p)
  let ?f = "\<lambda>(key, v) processed. js_set key (g v) processed"
  have step: "fold ?f (p # cfg) acc = fold ?f cfg (js_set key (g v) acc)"
    unfolding p by simp
  have acc: "map_of (js_set key (g v) acc) k = (if k = key then Some (g v) else map_of acc k)"
    using Cons.prems by (auto simp add: js_set_def update_conv')
  have "map_of (fold ?f (p # cfg) acc) k =
          (case map_of (rev cfg) k of
             None \<Rightarrow> map_of (js_set key (g v) acc) k | Some v \<Rightarrow> Some (g v))"
    unfolding step by (rule Cons.IH [OF Cons.prems])
  then show ?case
    unfolding acc p by (simp add: map_add_def split: option.splits)
qed

lemma map_of_rev_distinct:
  "distinct (map fst xs) \<Longrightarrow> map_of (rev xs) k = map_of xs k"
proof (induction xs)
  case Nil
  then show ?case by simp
next
  case (Cons p xs)
  obtain a v where p: "p = (a, v)" by (cases p)
  from Cons.prems p have na: "a \<notin> fst ` set xs" and d: "distinct (map fst xs)" by auto
  from na have "map_of xs a = None" by (simp add: map_of_eq_None_iff)
  with Cons.IH [OF d] p show ?case
    by (cases "k = a") (auto simp add: map_add_def split: option.splits)
qed

lemma stepInput_condition:
  assumes "distinct (map fst cfg)"
  shows "cfg_get (AList.update ''_context'' ctx (processed_config env cfg outs)) ''condition''
           = cfg_get cfg ''condition''"
proof -
  let ?cfg1 = "AList.update ''condition'' JUndefined cfg"
  have cp: "''condition'' \<noteq> ''__proto__''" by simp
  have d: "distinct (map fst ?cfg1)" using assms by (rule distinct_update)
  have "map_of (rev ?cfg1) ''condition'' = map_of ?cfg1 ''condition''"
    using d by (rule map_of_rev_distinct)
  then have r: "map_of (rev ?cfg1) ''condition'' = Some JUndefined"
    by (simp add: update_conv')
  have pt: "map_of (processTemplates env ?cfg1 outs) ''condition'' = Some JUndefined"
    unfolding processTemplates_def processTemplates_lookup [OF cp] r by simp
  show ?thesis
    using pt by (simp add: processed_config_def cfg_get_def js_set_def update_conv' Let_def)
qed

lemma node_passes:
  assumes nv: "n \<notin> set vis" and nm: "nodeMap inp n = Some node"
    and ty: "enabled node = Some False \<or> node_type node = ''trigger''"
  shows "\<exists>st1 d. own_step inp n st st1
           \<and> outputs st1 = assign_output (sanitize n)
                 \<lparr>out_label = label_or_id node n, out_data = d\<rparr> (outputs st)
           \<and> executeNode (Suc k) env inp n (vis, st) =
               for_each (executeNode k env inp) (edgesBySource inp n) (vis @ [n], st1)"
proof (cases "enabled node = Some False")
  case True
  have "outputs (set_output node n JNull st) = assign_output (sanitize n)
                 \<lparr>out_label = label_or_id node n, out_data = JNull\<rparr> (outputs st)"
    by (simp add: set_output_def)
  with executeNode_disabled [OF nv nm True] own_step_disabled [OF nm True]
  show ?thesis by blast
next
  case False
  with ty have tr: "node_type node = ''trigger''" by simp
  let ?r = "\<lparr>success = True,
             res_data = JObj (trigger_data env (config_or_empty node) (triggerInput inp)
                                (clock st)),
             res_error = JUndefined\<rparr>"
  let ?st1 = "st\<lparr>clock := Suc (clock st), trace := trace st @ [StepRun n]\<rparr>"
  have cr: "compute_result env inp node n st = (Computed ?r, ?st1)"
    using tr by (simp add: compute_result_def step_run_def)
  have pr: "proceeds node ?r"
    using tr by (simp add: proceeds_def isConditionNode_def)
  have "outputs (set_output node n (res_data ?r) (set_result n ?r ?st1)) =
          assign_output (sanitize n)
            \<lparr>out_label = label_or_id node n, out_data = res_data ?r\<rparr> (outputs st)"
    by (simp add: set_output_def set_result_def)
  with executeNode_proceeds [OF nv nm False cr pr] own_step_computed [OF cr]
  show ?thesis by blast
qed








section \<open>Properties of the orchestrator\<close>

subsection \<open>Write-once entries\<close>

text \<open>
  Claim C2, as stated: an entry of \<open>results\<close> or \<open>outputs\<close>, once written, is never
  overwritten in the same run, also for a node reachable from two trigger nodes. In the
  sample workflow two triggers \<open>t1\<close> and \<open>t2\<close> both lead to the action \<open>a\<close>, whose
  configuration refers to the output of \<open>t2\<close>. The walk from \<open>t1\<close> records a result for
  \<open>a\<close> with the reference unresolved; the walk from \<open>t2\<close> executes \<open>a\<close> again and replaces
  the entry: both \<open>results[a]\<close> and \<open>outputs[a]\<close> are assigned twice.
\<close>

theorem run_overwrites_shared_node_counterexample:
  "result_field ''a'' ''msg''
     (walk_from sample_env shared_input (sample_node ''t1'' ''trigger'' []) initial_state)
     = Some (JStr ''{{@t2:x.triggered}}'')
   \<and> result_field ''a'' ''msg'' (run_walks sample_env shared_input) = Some (JStr ''true'')
   \<and> count_list (trace_of (run_walks sample_env shared_input)) (SetResult ''a'') = 2
   \<and> count_list (trace_of (run_walks sample_env shared_input)) (SetOutput ''a'') = 2"
  by code_simp

text \<open>
  Claim C2, amended: within one walk (one top-level call of \<open>executeNode\<close> and all its
  recursive calls) no assignment to \<open>results\<close> or \<open>outputs\<close> happens twice for the same
  node, every assignment belongs to a node that the walk visits for the first time, and
  the results of nodes visited before are left as they were. Nothing is promised across
  the walks of a run.
\<close>

theorem walk_writes_each_entry_once:
  assumes "executeNode k env inp n (vis, st) = Some (vis', st')"
  shows "(\<exists>new. trace st' = trace st @ new \<and> distinct new
            \<and> (\<forall>e \<in> set new. event_node e \<in> set vis' \<and> event_node e \<notin> set vis))
         \<and> (\<forall>m \<in> set vis. map_of (results st') m = map_of (results st) m)"
proof -
  from executeNode_extends [OF assms] have e: "extends inp (vis, st) (vis', st')" by simp
  then obtain new where new: "trace st' = trace st @ new" "distinct new"
      "event_node ` set new \<subseteq> set vis' - set vis"
    unfolding extends_def fst_conv snd_conv by blast
  from new(3) have "\<forall>e \<in> set new. event_node e \<in> set vis' \<and> event_node e \<notin> set vis"
    by auto
  moreover from e have "\<forall>m \<in> set vis. map_of (results st') m = map_of (results st) m"
    unfolding extends_def fst_conv snd_conv by blast
  ultimately show ?thesis using new(1,2) by blast
qed

lemma cycle_walk_some:
  "executeNode 3 sample_env cycle_input ''A'' ([], initial_state) \<noteq> None"
  by code_simp

theorem walk_writes_each_entry_once_witness:
  "distinct (trace_of (walk_state
     (executeNode 3 sample_env cycle_input ''A'' ([], initial_state))))"
proof -
  from cycle_walk_some obtain vis' st'
    where run: "executeNode 3 sample_env cycle_input ''A'' ([], initial_state) = Some (vis', st')"
    by auto
  from walk_writes_each_entry_once [OF run] have "distinct (trace st')"
    by (auto simp add: initial_state_def)
  with run show ?thesis by (simp add: trace_of_def walk_state_def)
qed

subsection \<open>Overall success\<close>






subsection \<open>Disabled nodes\<close>

text \<open>
  A visit to a node whose \<open>enabled\<close> is \<open>false\<close> and whose sanitized id is not \<open>__proto__\<close>,
  with a recursion bound that the unvisited nodes do not exceed: the call returns. It first
  adds \<open>{label, data: null}\<close> to \<open>outputs\<close> under the sanitized id (the label is the node's
  label, or its id when the label is empty) and leaves \<open>results\<close> alone, then calls
  \<open>executeNode\<close> on every successor in edge order. At the end of the call the node still
  has no new entry in \<open>results\<close>, no \<open>results\<close> assignment of the node is in the trace,
  every successor is in the visited set, and the output is still there unless a node
  visited after it has the same sanitized id.
\<close>

lemma disabled_node_pass_through:
  assumes nm: "nodeMap inp n = Some node" and dis: "enabled node = Some False"
    and nv: "n \<notin> set vis"
    and fuel: "card (known_ids inp - set vis) < Suc k"
    and ps: "sanitize n \<noteq> ''__proto__''"
  shows "\<exists>st1 vis' st'.
            own_outputs (outputs st1) = AList.update (sanitize n)
                   \<lparr>out_label = (if node_label node \<noteq> [] then node_label node else n),
                    out_data = JNull\<rparr> (own_outputs (outputs st))
          \<and> results st1 = results st
          \<and> executeNode (Suc k) env inp n (vis, st) = Some (vis', st')
          \<and> for_each (executeNode k env inp) (edgesBySource inp n) (vis @ [n], st1)
              = Some (vis', st')
          \<and> map_of (results st') n = map_of (results st) n
          \<and> SetResult n \<notin> set (drop (length (trace st)) (trace st'))
          \<and> set (edgesBySource inp n) \<subseteq> set vis'
          \<and> (sanitize n \<notin> sanitize ` (set vis' - set (vis @ [n])) \<longrightarrow>
               map_of (own_outputs (outputs st')) (sanitize n)
                 = Some \<lparr>out_label = (if node_label node \<noteq> [] then node_label node else n),
                         out_data = JNull\<rparr>)"
proof -
  let ?st1 = "set_output node n JNull st"
  let ?out = "\<lparr>out_label = (if node_label node \<noteq> [] then node_label node else n),
               out_data = JNull\<rparr>"
  from executeNode_total [OF fuel, of env n st] obtain vis' st'
    where run: "executeNode (Suc k) env inp n (vis, st) = Some (vis', st')"
    by auto
  have o: "own_outputs (outputs ?st1) = AList.update (sanitize n) ?out (own_outputs (outputs st))"
    and r: "results ?st1 = results st"
    and t: "trace ?st1 = trace st @ [SetOutput n]"
    using ps by (simp_all add: set_output_def label_or_id_def assign_output_def)
  from run have loop: "for_each (executeNode k env inp) (edgesBySource inp n) (vis @ [n], ?st1)
                         = Some (vis', st')"
    unfolding executeNode_disabled [OF nv nm dis] .
  from for_each_executeNode [OF loop]
  have e: "extends inp (vis @ [n], ?st1) (vis', st')"
    and v: "set (edgesBySource inp n) \<subseteq> set vis'"
    by simp_all
  from e obtain new where new: "trace st' = trace ?st1 @ new"
      "event_node ` set new \<subseteq> set vis' - set (vis @ [n])"
    unfolding extends_def fst_conv snd_conv by blast
  from e have fr: "\<forall>m. m \<notin> set vis' - set (vis @ [n])
                      \<longrightarrow> map_of (results st') m = map_of (results ?st1) m"
    and fo: "\<forall>K. K \<notin> sanitize ` (set vis' - set (vis @ [n]))
                      \<longrightarrow> output_slot (outputs st') K = output_slot (outputs ?st1) K"
    unfolding extends_def fst_conv snd_conv by blast+
  from fr r have res: "map_of (results st') n = map_of (results st) n" by simp
  have "SetResult n \<notin> set new" using new(2) by force
  with new(1) t have tr: "SetResult n \<notin> set (drop (length (trace st)) (trace st'))" by simp
  have out: "map_of (own_outputs (outputs st')) (sanitize n) = Some ?out"
    if "sanitize n \<notin> sanitize ` (set vis' - set (vis @ [n]))"
  proof -
    from fo that
    have "output_slot (outputs st') (sanitize n) = output_slot (outputs ?st1) (sanitize n)"
      by blast
    with ps have "map_of (own_outputs (outputs st')) (sanitize n)
                    = map_of (own_outputs (outputs ?st1)) (sanitize n)"
      by (simp add: output_slot_def)
    then show ?thesis unfolding o by (simp add: update_conv')
  qed
  from o r run loop res tr v out show ?thesis by blast
qed

lemma disabled_node_example:
  "walk_summary (executeNode 4 sample_env disabled_input ''d'' ([''t''], initial_state))
     = Some ([''t'', ''d'', ''x'', ''y''], [''x'', ''y''], [''d'', ''x'', ''y''], None)
   \<and> output_of ''d''
       (walk_state (executeNode 4 sample_env disabled_input ''d'' ([''t''], initial_state)))
      = Some \<lparr>out_label = ''Off'', out_data = JNull\<rparr>"
  by code_simp

text \<open>
  Claim C9 says that for every disabled node the output \<open>{label, data: null}\<close> is recorded
  under the node's sanitized id. It is not for a node whose id sanitizes to \<open>__proto__\<close>.
  In the sample workflow the trigger \<open>t\<close> leads to the disabled node \<open>--proto--\<close> (label
  \<open>Off\<close>), which has the successors \<open>x\<close> and \<open>y\<close>. Both are visited and no result is
  recorded for the node, as claimed; but the assignment
  \<open>outputs["__proto__"] = {label: "Off", data: null}\<close> adds no entry: when the run ends,
  the entries of \<open>outputs\<close> are those of \<open>t\<close>, \<open>x\<close> and \<open>y\<close>, and the node output has become
  the prototype of \<open>outputs\<close>. The same holds of the call of \<open>executeNode\<close> on the node
  alone. From then on a lookup of \<open>outputs["label"]\<close> finds the inherited string \<open>"Off"\<close>,
  where it found nothing before, so that the reference \<open>{{@label:x}}\<close> in the
  configuration of \<open>x\<close>, to a node that does not exist, is replaced by the empty string.
\<close>

theorem disabled_node_replaces_prototype:
  "sanitize ''--proto--'' = ''__proto__''
   \<and> run_summary (run_walks sample_env proto_input)
       = Some ([''t'', ''x'', ''y''], [''t'', ''x'', ''y''],
               Some \<lparr>out_label = ''Off'', out_data = JNull\<rparr>)
   \<and> walk_summary (executeNode 4 sample_env proto_input ''--proto--'' ([''t''], initial_state))
       = Some ([''t'', ''--proto--'', ''x'', ''y''], [''x'', ''y''], [''x'', ''y''],
               Some \<lparr>out_label = ''Off'', out_data = JNull\<rparr>)
   \<and> lookup_in (Some initial_state) ''label'' = None
   \<and> lookup_in
         (walk_state (executeNode 4 sample_env proto_input ''--proto--'' ([''t''], initial_state)))
         ''label''
       = Some JUndefined
   \<and> result_field ''x'' ''msg''
         (walk_state (executeNode 4 sample_env proto_input ''--proto--'' ([''t''], initial_state)))
       = Some (JStr ''see '')"
  by code_simp

subsection \<open>Returned failures\<close>

text \<open>
  Claim C3, as stated: an action node whose step returns \<open>{success: false, error}\<close> gets a
  failed result, no entry in \<open>outputs\<close>, and none of its successors is visited. In the
  sample workflow the step of \<open>f\<close> returns an explicit failure; after the call,
  \<open>outputs[f]\<close> holds \<open>{label: "f", data: undefined}\<close>, where there was no entry before.
  (The successor \<open>g\<close> is not visited.)
\<close>

theorem returned_failure_stores_output_counterexample:
  "output_of ''f'' (walk_state (executeNode 3 sample_env failing_input ''f'' ([''t''], initial_state)))
     = Some \<lparr>out_label = ''f'', out_data = JUndefined\<rparr>
   \<and> output_of ''f'' (Some initial_state) = None
   \<and> result_field ''f'' ''error'' (Some initial_state) = None
   \<and> walk_visited (executeNode 3 sample_env failing_input ''f'' ([''t''], initial_state))
     = [''t'', ''f'']"
  by code_simp

text \<open>
  Claim C3, amended: take an enabled action node with an action type, whose id is not
  \<open>__proto__\<close> and does not sanitize to \<open>__proto__\<close>. When its step returns a value that
  \<open>isErrorResult\<close> accepts (an object with \<open>success === false\<close>), one call of \<open>executeNode\<close>
  runs the step, records \<open>{success: false, error}\<close> in \<open>results\<close> under the node id (the
  error of the step result, or \<open>Step "<actionType>" failed\<close> when that is falsy), records
  \<open>{label, data: undefined}\<close> in \<open>outputs\<close> under the sanitized id, and returns with the
  node as the only new member of the visited set: no successor is visited. When its step
  throws, the call runs the step, records \<open>{success: false, error: <message>}\<close> in
  \<open>results\<close>, leaves \<open>outputs\<close> as it was, and returns in the same way.
\<close>

theorem returned_failure_recorded:
  assumes nm: "nodeMap inp n = Some node" and en: "enabled node \<noteq> Some False"
    and nv: "n \<notin> set vis"
    and ty: "node_type node = ''action''"
    and at: "cfg_string env (config_or_empty node) ''actionType'' = Some actionType"
    and pn: "n \<noteq> ''__proto__''" and ps: "sanitize n \<noteq> ''__proto__''"
  shows \<open>(\<forall>stepResult.
       action_step env actionType
           (processed_config env (config_or_empty node) (outputs st))
           (step_context env (executionId inp) node actionType) (outputs st)
         = Inr stepResult
       \<and> isErrorResult stepResult \<longrightarrow>
       executeNode (Suc k) env inp n (vis, st) =
         Some (vis @ [n],
               st\<lparr>results := AList.update n
                     \<lparr>success = False, res_data = JUndefined,
                      res_error =
                        (if js_truthy (js_get stepResult ''error'')
                         then js_get stepResult ''error''
                         else JStr (''Step "'' @ actionType @ ''" failed''))\<rparr> (results st),
                  outputs := (outputs st)
                     \<lparr>own_outputs := AList.update (sanitize n)
                        \<lparr>out_label = (if node_label node \<noteq> [] then node_label node else n),
                         out_data = JUndefined\<rparr> (own_outputs (outputs st))\<rparr>,
                  trace := trace st @ [StepRun n, SetResult n, SetOutput n]\<rparr>))
     \<and> (\<forall>msg.
       action_step env actionType
           (processed_config env (config_or_empty node) (outputs st))
           (step_context env (executionId inp) node actionType) (outputs st)
         = Inl (JsError msg) \<longrightarrow>
       executeNode (Suc k) env inp n (vis, st) =
         Some (vis @ [n],
               st\<lparr>results := AList.update n
                     \<lparr>success = False, res_data = JUndefined, res_error = JStr msg\<rparr>
                     (results st),
                  trace := trace st @ [StepRun n, SetResult n]\<rparr>))\<close>
proof (intro conjI allI impI)
  fix stepResult
  assume h: "action_step env actionType
           (processed_config env (config_or_empty node) (outputs st))
           (step_context env (executionId inp) node actionType) (outputs st)
         = Inr stepResult
       \<and> isErrorResult stepResult"
  then have sr: "action_step env actionType
           (processed_config env (config_or_empty node) (outputs st))
           (step_context env (executionId inp) node actionType) (outputs st)
         = Inr stepResult" and er: "isErrorResult stepResult" by simp_all
  let ?r = "action_result actionType stepResult"
  have cr: "compute_result env inp node n st
              = (Computed ?r, st\<lparr>trace := trace st @ [StepRun n]\<rparr>)"
    using ty at sr by (simp add: compute_result_def step_run_def Let_def)
  have np: "\<not> proceeds node ?r"
    using er by (simp add: proceeds_def action_result_def)
  show \<open>executeNode (Suc k) env inp n (vis, st) =
         Some (vis @ [n],
               st\<lparr>results := AList.update n
                     \<lparr>success = False, res_data = JUndefined,
                      res_error =
                        (if js_truthy (js_get stepResult ''error'')
                         then js_get stepResult ''error''
                         else JStr (''Step "'' @ actionType @ ''" failed''))\<rparr> (results st),
                  outputs := (outputs st)
                     \<lparr>own_outputs := AList.update (sanitize n)
                        \<lparr>out_label = (if node_label node \<noteq> [] then node_label node else n),
                         out_data = JUndefined\<rparr> (own_outputs (outputs st))\<rparr>,
                  trace := trace st @ [StepRun n, SetResult n, SetOutput n]\<rparr>)\<close>
    unfolding executeNode_stops [OF nv nm en cr np]
    using er pn ps
    by (simp add: action_result_def set_result_def set_output_def label_or_id_def js_set_def
        assign_output_def)
next
  fix msg
  assume sr: "action_step env actionType
           (processed_config env (config_or_empty node) (outputs st))
           (step_context env (executionId inp) node actionType) (outputs st)
         = Inl (JsError msg)"
  have cr: "compute_result env inp node n st
              = (Threw (JsError msg), st\<lparr>trace := trace st @ [StepRun n]\<rparr>)"
    using ty at sr by (simp add: compute_result_def step_run_def Let_def)
  show "executeNode (Suc k) env inp n (vis, st) =
         Some (vis @ [n],
               st\<lparr>results := AList.update n
                     \<lparr>success = False, res_data = JUndefined, res_error = JStr msg\<rparr>
                     (results st),
                  trace := trace st @ [StepRun n, SetResult n]\<rparr>)"
    unfolding executeNode_threw [OF nv nm en cr]
    using pn by (simp add: set_result_def js_set_def)
qed

lemma failing_nodeMap:
  "nodeMap failing_input ''f'' = Some (sample_node ''f'' ''action'' [(''actionType'', JStr ''Fail'')])"
  by code_simp

lemma failing_step:
  "action_step sample_env ''Fail''
     (processed_config sample_env
        (config_or_empty (sample_node ''f'' ''action'' [(''actionType'', JStr ''Fail'')]))
        (outputs initial_state))
     (step_context sample_env (executionId failing_input)
        (sample_node ''f'' ''action'' [(''actionType'', JStr ''Fail'')]) ''Fail'')
     (outputs initial_state)
   = Inr (failure_object ''boom'')"
  by code_simp

lemma throwing_nodeMap:
  "nodeMap throwing_input ''h'' = Some (sample_node ''h'' ''action'' [(''actionType'', JStr ''Throw'')])"
  by code_simp

lemma throwing_step:
  "action_step sample_env ''Throw''
     (processed_config sample_env
        (config_or_empty (sample_node ''h'' ''action'' [(''actionType'', JStr ''Throw'')]))
        (outputs initial_state))
     (step_context sample_env (executionId throwing_input)
        (sample_node ''h'' ''action'' [(''actionType'', JStr ''Throw'')]) ''Throw'')
     (outputs initial_state)
   = Inl (JsError ''crash'')"
  by code_simp

theorem returned_failure_recorded_witness:
  "executeNode 3 sample_env failing_input ''f'' ([''t''], initial_state) =
     Some ([''t'', ''f''],
           \<lparr>outputs = \<lparr>own_outputs = [(''f'', \<lparr>out_label = ''f'', out_data = JUndefined\<rparr>)],
                        replaced_prototype = None\<rparr>,
            results = [(''f'', \<lparr>success = False, res_data = JUndefined,
                                res_error = JStr ''boom''\<rparr>)],
            clock = 1,
            trace = [StepRun ''f'', SetResult ''f'', SetOutput ''f'']\<rparr>)
   \<and> executeNode 3 sample_env throwing_input ''h'' ([''t''], initial_state) =
     Some ([''t'', ''h''],
           \<lparr>outputs = no_outputs,
            results = [(''h'', \<lparr>success = False, res_data = JUndefined,
                                res_error = JStr ''crash''\<rparr>)],
            clock = 1,
            trace = [StepRun ''h'', SetResult ''h'']\<rparr>)"
proof -
  have ty: "node_type (sample_node i ''action'' c) = ''action''"
    and en: "enabled (sample_node i ''action'' c) \<noteq> Some False" for i c
    by (simp_all add: sample_node_def)
  have atf: "cfg_string sample_env
              (config_or_empty (sample_node ''f'' ''action'' [(''actionType'', JStr ''Fail'')]))
              ''actionType'' = Some ''Fail''"
    by code_simp
  have ath: "cfg_string sample_env
              (config_or_empty (sample_node ''h'' ''action'' [(''actionType'', JStr ''Throw'')]))
              ''actionType'' = Some ''Throw''"
    by code_simp
  have er: "isErrorResult (failure_object ''boom'')" by code_simp
  have nvf: "''f'' \<notin> set [''t'']" and nvh: "''h'' \<notin> set [''t'']" by simp_all
  have san: "sanitize ''f'' = ''f''" "sanitize ''h'' = ''h''" by code_simp+
  have pf: "''f'' \<noteq> ''__proto__''" "sanitize ''f'' \<noteq> ''__proto__''"
    and ph: "''h'' \<noteq> ''__proto__''" "sanitize ''h'' \<noteq> ''__proto__''"
    unfolding san by simp_all
  have err: "js_get (failure_object ''boom'') ''error'' = JStr ''boom''" by code_simp
  from returned_failure_recorded [OF failing_nodeMap en nvf ty atf pf,
         where st = initial_state and k = 2] failing_step er
  have a: "executeNode 3 sample_env failing_input ''f'' ([''t''], initial_state) =
     Some ([''t'', ''f''],
           \<lparr>outputs = \<lparr>own_outputs = [(''f'', \<lparr>out_label = ''f'', out_data = JUndefined\<rparr>)],
                        replaced_prototype = None\<rparr>,
            results = [(''f'', \<lparr>success = False, res_data = JUndefined,
                                res_error = JStr ''boom''\<rparr>)],
            clock = 1,
            trace = [StepRun ''f'', SetResult ''f'', SetOutput ''f'']\<rparr>)"
    by (simp add: eval_nat_numeral san err initial_state_def sample_node_def no_outputs_def)
  from returned_failure_recorded [OF throwing_nodeMap en nvh ty ath ph,
         where st = initial_state and k = 2] throwing_step
  have b: "executeNode 3 sample_env throwing_input ''h'' ([''t''], initial_state) =
     Some ([''t'', ''h''],
           \<lparr>outputs = no_outputs,
            results = [(''h'', \<lparr>success = False, res_data = JUndefined,
                                res_error = JStr ''crash''\<rparr>)],
            clock = 1,
            trace = [StepRun ''h'', SetResult ''h'']\<rparr>)"
    by (simp add: eval_nat_numeral initial_state_def sample_node_def)
  from a b show ?thesis by simp
qed

subsection \<open>Termination and cycles\<close>




subsection \<open>Condition pruning\<close>

text \<open>
  On a workflow \<open>T \<rightarrow> C \<rightarrow> A\<close> (three nodes with distinct ids, \<open>T\<close> a trigger, \<open>C\<close> an enabled
  Condition action whose configuration has distinct keys) the run finishes; the result
  assigned for \<open>C\<close> is a success whose data is \<open>{condition: b}\<close>, where \<open>b\<close> is what
  \<open>evaluateConditionExpression\<close> returns for the \<open>condition\<close> field of \<open>C\<close> on the outputs
  stored so far (the output of \<open>T\<close>). When \<open>b\<close> is true, \<open>A\<close> is visited, and when \<open>A\<close> is not
  disabled its result is assigned. When \<open>b\<close> is false, \<open>A\<close> has no entry in \<open>results\<close> and no
  event in the trace, and \<open>outputs\<close> stores nothing under the sanitized id of \<open>A\<close> if that
  is the sanitized id of neither other node. (An assigned result is an entry of \<open>results\<close>
  unless the node id is \<open>__proto__\<close>.)
\<close>

lemma condition_prunes_successors:
  assumes ns: "nodes inp = [T, C, A]"
    and ids: "node_id T = t" "node_id C = c" "node_id A = a" "distinct [t, c, a]"
    and es: "edges inp = [\<lparr>source = t, target = c\<rparr>, \<lparr>source = c, target = a\<rparr>]"
    and tt: "node_type T = ''trigger''"
    and cc: "isConditionNode C" "enabled C \<noteq> Some False"
    and dk: "distinct (map fst (config_or_empty C))"
  shows "\<exists>st b d. run_walks env inp = Some st
     \<and> b = result (evaluateConditionExpression env (cfg_get (config_or_empty C) ''condition'')
                 (assign_output (sanitize t)
                    \<lparr>out_label = (if node_label T \<noteq> [] then node_label T else t),
                     out_data = d\<rparr> no_outputs))
     \<and> (c \<noteq> ''__proto__'' \<longrightarrow>
           map_of (results st) c =
             Some \<lparr>success = True, res_data = JObj [(''condition'', JBool b)],
                   res_error = JUndefined\<rparr>)
     \<and> (b \<longrightarrow> (\<exists>e \<in> set (trace st). event_node e = a)
            \<and> (enabled A \<noteq> Some False \<longrightarrow>
                  SetResult a \<in> set (trace st)
                  \<and> (a \<noteq> ''__proto__'' \<longrightarrow> map_of (results st) a \<noteq> None)))
     \<and> (\<not> b \<longrightarrow> map_of (results st) a = None
            \<and> (\<forall>e \<in> set (trace st). event_node e \<noteq> a)
            \<and> (sanitize a \<noteq> sanitize t \<and> sanitize a \<noteq> sanitize c \<longrightarrow>
                  output_slot (outputs st) (sanitize a) = None))"
proof -
  have nm: "nodeMap inp t = Some T" "nodeMap inp c = Some C" "nodeMap inp a = Some A"
    using ns ids by (auto simp add: nodeMap_def)
  have succ: "edgesBySource inp t = [c]" "edgesBySource inp c = [a]" "edgesBySource inp a = []"
    using es ids by (auto simp add: edgesBySource_def)
  have trig: "triggerNodes inp = [T]"
    using ns es ids tt cc(1) by (auto simp add: triggerNodes_def isConditionNode_def)
  have len: "Suc (length (nodes inp)) = Suc (Suc (Suc (Suc 0)))" using ns by simp
  \<comment> \<open>the trigger\<close>
  from node_passes [OF _ nm(1), of "[]" initial_state "Suc (Suc (Suc 0))" env] tt
  obtain stT d where oT: "own_step inp t initial_state stT"
    and outT: "outputs stT = assign_output (sanitize t)
                   \<lparr>out_label = (if node_label T \<noteq> [] then node_label T else t),
                    out_data = d\<rparr> no_outputs"
    and rT: "executeNode (Suc (Suc (Suc (Suc 0)))) env inp t ([], initial_state) =
               for_each (executeNode (Suc (Suc (Suc 0))) env inp) [c] ([t], stT)"
    unfolding succ by (auto simp add: initial_state_def label_or_id_def)
  have eT: "extends inp ([], initial_state) ([t], stT)"
    using own_step_extends [OF oT, of "[]"] by simp
  \<comment> \<open>the condition\<close>
  let ?b = "result (evaluateConditionExpression env
                    (cfg_get (AList.update ''_context''
                                (step_context env (executionId inp) C ''Condition'')
                                (processed_config env (config_or_empty C) (outputs stT)))
                       ''condition'')
                    (outputs stT))"
  let ?r = "\<lparr>success = True, res_data = JObj [(''condition'', JBool ?b)],
             res_error = JUndefined\<rparr>"
  let ?stC = "set_output C c (res_data ?r)
                (set_result c ?r (stT\<lparr>trace := trace stT @ [StepRun c]\<rparr>))"
  have crC: "compute_result env inp C c stT = (Computed ?r, stT\<lparr>trace := trace stT @ [StepRun c]\<rparr>)"
    by (rule condition_compute [OF cc(1)])
  have nvC: "c \<notin> set [t]" using ids by auto
  have eC: "extends inp ([t], stT) ([t, c], ?stC)"
    using own_step_extends [OF own_step_computed [OF crC] nvC] by simp
  have eTC: "extends inp ([], initial_state) ([t, c], ?stC)"
    by (rule extends_trans [OF eT eC])
  have resC: "map_of (results ?stC) c = Some ?r" if "c \<noteq> ''__proto__''"
    using that by (simp add: set_output_def set_result_def js_set_def update_conv')
  have prC: "proceeds C ?r = ?b"
    using cc(1) by (simp add: proceeds_def)
  have bdef: "?b = result (evaluateConditionExpression env
                 (cfg_get (config_or_empty C) ''condition'')
                 (assign_output (sanitize t)
                    \<lparr>out_label = (if node_label T \<noteq> [] then node_label T else t),
                     out_data = d\<rparr> no_outputs))"
    unfolding stepInput_condition [OF dk] outT ..
  show ?thesis
  proof (cases ?b)
    case False
    then have np: "\<not> proceeds C ?r" using prC by simp
    have "executeNode (Suc (Suc (Suc 0))) env inp c ([t], stT) = Some ([t] @ [c], ?stC)"
      by (rule executeNode_stops [OF nvC nm(2) cc(2) crC np])
    with rT have run: "executeNode (Suc (length (nodes inp))) env inp t ([], initial_state)
                         = Some ([t, c], ?stC)"
      unfolding len by simp
    then have rw: "run_walks env inp = Some ?stC"
      using ids(1) by (simp add: run_walks_def trig walk_from_def)
    from eTC obtain new where new: "trace ?stC = trace initial_state @ new"
        "event_node ` set new \<subseteq> set [t, c] - set []"
      unfolding extends_def fst_conv snd_conv by blast
    from new ids(4) have ev: "\<forall>e \<in> set (trace ?stC). event_node e \<noteq> a"
      by (auto simp add: initial_state_def)
    from eTC ids(4) have "map_of (results ?stC) a = map_of (results initial_state) a"
      unfolding extends_def fst_conv snd_conv by auto
    then have ra: "map_of (results ?stC) a = None" by (simp add: initial_state_def)
    have oa: "output_slot (outputs ?stC) (sanitize a) = None"
      if "sanitize a \<noteq> sanitize t \<and> sanitize a \<noteq> sanitize c"
    proof -
      from that have "sanitize a \<notin> sanitize ` (set [t, c] - set [])" by auto
      with eTC have "output_slot (outputs ?stC) (sanitize a)
                       = output_slot (outputs initial_state) (sanitize a)"
        unfolding extends_def fst_conv snd_conv by blast
      then show ?thesis by (simp add: initial_state_def no_outputs_def output_slot_def)
    qed
    from rw bdef resC False ev ra oa show ?thesis by blast
  next
    case True
    then have pr: "proceeds C ?r" using prC by simp
    have stepC: "executeNode (Suc (Suc (Suc 0))) env inp c ([t], stT) =
            for_each (executeNode (Suc (Suc 0)) env inp) [a] ([t] @ [c], ?stC)"
      using executeNode_proceeds [OF nvC nm(2) cc(2) crC pr] unfolding succ .
    have "card (known_ids inp - set [t, c]) < Suc (Suc 0)"
    proof -
      have "known_ids inp - set [t, c] \<subseteq> {a}" using ns ids by (auto simp add: known_ids_def)
      then have "card (known_ids inp - set [t, c]) \<le> card {a}"
        by (rule card_mono [rotated]) simp
      then show ?thesis by simp
    qed
    from executeNode_total [OF this, of env a ?stC] obtain vis' st'
      where runA: "executeNode (Suc (Suc 0)) env inp a ([t, c], ?stC) = Some (vis', st')"
      by auto
    with stepC rT have run: "executeNode (Suc (length (nodes inp))) env inp t ([], initial_state)
                         = Some (vis', st')"
      unfolding len by simp
    then have rw: "run_walks env inp = Some st'"
      using ids(1) by (simp add: run_walks_def trig walk_from_def)
    from executeNode_extends [OF runA]
    have eA: "extends inp ([t, c], ?stC) (vis', st')" and inA: "a \<in> set vis'" by simp_all
    have nvA: "a \<notin> set [t, c]" using ids by auto
    from eA ids(4) have "map_of (results st') c = map_of (results ?stC) c"
      unfolding extends_def fst_conv snd_conv by auto
    with resC have rc: "map_of (results st') c = Some ?r" if "c \<noteq> ''__proto__''"
      using that by simp
    \<comment> \<open>the first effect of visiting \<open>a\<close>\<close>
    have evA: "\<exists>e \<in> set (trace st'). event_node e = a"
    proof (cases "enabled A = Some False")
      case True
      from runA have "for_each (executeNode (Suc 0) env inp) (edgesBySource inp a)
                        ([t, c] @ [a], set_output A a JNull ?stC) = Some (vis', st')"
        unfolding executeNode_disabled [OF nvA nm(3) True] .
      then have "st' = set_output A a JNull ?stC" unfolding succ by simp
      then have "SetOutput a \<in> set (trace st')" by (simp add: set_output_def)
      then show ?thesis by force
    next
      case False
      then have "executes inp a" using nm(3) by (simp add: executes_def)
      with eA inA nvA obtain new where "trace st' = trace ?stC @ new" "SetResult a \<in> set new"
        unfolding extends_def fst_conv snd_conv by auto
      then have "SetResult a \<in> set (trace st')" by simp
      then show ?thesis by force
    qed
    have exA: "SetResult a \<in> set (trace st')
                 \<and> (a \<noteq> ''__proto__'' \<longrightarrow> map_of (results st') a \<noteq> None)"
      if en: "enabled A \<noteq> Some False"
    proof -
      from en have "executes inp a" using nm(3) by (simp add: executes_def)
      with eA inA nvA obtain new where "trace st' = trace ?stC @ new" "SetResult a \<in> set new"
        unfolding extends_def fst_conv snd_conv by auto
      then have "SetResult a \<in> set (trace st')" by simp
      moreover have "map_of (results st') a \<noteq> None" if "a \<noteq> ''__proto__''"
        using executed_has_result [OF nvA nm(3) en that runA] .
      ultimately show ?thesis by simp
    qed
    from rw bdef rc True evA exA show ?thesis by blast
  qed
qed

lemma condition_true_run:
  "result_field ''C'' ''condition''
     (run_walks sample_env (condition_input (JStr ''{{@T:x.triggered}}''))) = Some (JBool True)"
  by code_simp

lemma condition_false_run:
  "result_field ''C'' ''condition''
     (run_walks sample_env (condition_input (JStr ''false''))) = Some (JBool False)"
  by code_simp

lemma condition_prunes_successors_example:
  "SetResult ''A'' \<in> set (trace_of (run_walks sample_env
      (condition_input (JStr ''{{@T:x.triggered}}''))))
   \<and> result_field ''A'' ''nodeId''
       (run_walks sample_env (condition_input (JStr ''false''))) = None
   \<and> output_of ''A'' (run_walks sample_env (condition_input (JStr ''false''))) = None"
proof -
  let ?T = "sample_node ''T'' ''trigger'' []"
  let ?A = "sample_node ''A'' ''action'' [(''actionType'', JStr ''Echo'')]"
  have hyps: "nodes (condition_input cond) =
        [?T, sample_node ''C'' ''action''
               [(''actionType'', JStr ''Condition''), (''condition'', cond)], ?A]"
    "edges (condition_input cond) =
        [\<lparr>source = ''T'', target = ''C''\<rparr>, \<lparr>source = ''C'', target = ''A''\<rparr>]"
    "isConditionNode (sample_node ''C'' ''action''
               [(''actionType'', JStr ''Condition''), (''condition'', cond)])"
    "enabled (sample_node ''C'' ''action''
               [(''actionType'', JStr ''Condition''), (''condition'', cond)]) \<noteq> Some False"
    "distinct (map fst (config_or_empty (sample_node ''C'' ''action''
               [(''actionType'', JStr ''Condition''), (''condition'', cond)])))"
    for cond
    by (simp_all add: condition_input_def sample_input_def sample_node_def sample_edge_def
        isConditionNode_def config_or_empty_def cfg_get_def)
  have ids: "node_id ?T = ''T''" "node_id ?A = ''A''" "distinct [''T'', ''C'', ''A'']"
    "node_type ?T = ''trigger''" "enabled ?A \<noteq> Some False"
    "node_id (sample_node ''C'' ''action''
               [(''actionType'', JStr ''Condition''), (''condition'', cond)]) = ''C''" for cond
    by (simp_all add: sample_node_def)
  have san: "sanitize ''A'' \<noteq> sanitize ''T'' \<and> sanitize ''A'' \<noteq> sanitize ''C''"
    by code_simp
  have sa: "sanitize ''A'' = ''A''" by code_simp
  from condition_prunes_successors [where env = sample_env,
           OF hyps(1) [of "JStr ''{{@T:x.triggered}}''"] ids(1) ids(6) ids(2) ids(3) hyps(2) ids(4)
             hyps(3) hyps(4) hyps(5)]
  obtain st1 b1
    where r1: "run_walks sample_env (condition_input (JStr ''{{@T:x.triggered}}'')) = Some st1"
      and c1: "''C'' \<noteq> ''__proto__'' \<longrightarrow> map_of (results st1) ''C'' =
         Some \<lparr>success = True, res_data = JObj [(''condition'', JBool b1)],
               res_error = JUndefined\<rparr>"
      and t1: "b1 \<longrightarrow> (enabled ?A \<noteq> Some False \<longrightarrow> SetResult ''A'' \<in> set (trace st1))"
    by blast
  from condition_true_run r1 c1 have "b1" by (simp add: result_field_def)
  with t1 ids(5) r1
  have a: "SetResult ''A'' \<in> set (trace_of (run_walks sample_env
      (condition_input (JStr ''{{@T:x.triggered}}''))))"
    by (simp add: trace_of_def)
  from condition_prunes_successors [where env = sample_env,
           OF hyps(1) [of "JStr ''false''"] ids(1) ids(6) ids(2) ids(3) hyps(2) ids(4)
             hyps(3) hyps(4) hyps(5)]
  obtain st2 b2
    where r2: "run_walks sample_env (condition_input (JStr ''false'')) = Some st2"
      and c2: "''C'' \<noteq> ''__proto__'' \<longrightarrow> map_of (results st2) ''C'' =
         Some \<lparr>success = True, res_data = JObj [(''condition'', JBool b2)],
               res_error = JUndefined\<rparr>"
      and t2: "\<not> b2 \<longrightarrow> map_of (results st2) ''A'' = None
            \<and> (sanitize ''A'' \<noteq> sanitize ''T'' \<and> sanitize ''A'' \<noteq> sanitize ''C'' \<longrightarrow>
                  output_slot (outputs st2) (sanitize ''A'') = None)"
    by blast
  from condition_false_run r2 c2 have "\<not> b2" by (simp add: result_field_def)
  with t2 san sa r2
  have b: "result_field ''A'' ''nodeId''
       (run_walks sample_env (condition_input (JStr ''false''))) = None"
    "output_of ''A'' (run_walks sample_env (condition_input (JStr ''false''))) = None"
    by (simp_all add: result_field_def output_of_def output_slot_def)
  from a b show ?thesis by simp
qed

text \<open>
  Claim C5 says that for every graph \<open>T \<rightarrow> C \<rightarrow> A\<close> whose condition resolves to false, \<open>A\<close>
  appears in neither \<open>results\<close> nor \<open>outputs\<close>. \<open>outputs\<close> is keyed by sanitized ids, which
  two nodes may share. In the sample workflow the Condition node has the id \<open>a.1\<close> and
  its successor the id \<open>a_1\<close>; the condition is \<open>false\<close>. The successor is not executed (no
  event of it is in the trace, and \<open>results\<close> has no entry for it), as claimed; but
  \<open>outputs\<close> has an entry under its sanitized id, the output of the Condition node.
\<close>

theorem pruned_successor_key_holds_output:
  "sanitize ''a.1'' = sanitize ''a_1''
   \<and> result_field ''a.1'' ''condition'' (run_walks sample_env (collision_input (JBool False)))
       = Some (JBool False)
   \<and> ''a_1'' \<notin> event_node ` set (trace_of (run_walks sample_env (collision_input (JBool False))))
   \<and> result_of ''a_1'' (run_walks sample_env (collision_input (JBool False))) = None
   \<and> output_of (sanitize ''a_1'') (run_walks sample_env (collision_input (JBool False)))
       = Some \<lparr>out_label = ''a.1'', out_data = JObj [(''condition'', JBool False)]\<rparr>"
  by code_simp

lemma js_assign_other:
  "k \<notin> fst ` set b \<Longrightarrow> map_of (js_assign a b) k = map_of a k"
  unfolding js_assign_def
proof (induction b arbitrary: a)
  case Nil
  then show ?case by simp
next
  case (Cons p b)
  obtain key v where p: "p = (key, v)" by (cases p)
  from Cons.prems p have "k \<noteq> key" "k \<notin> fst ` set b" by auto
  with Cons.IH [of "AList.update key v a"] p show ?case
    by (simp add: update_conv')
qed

subsection \<open>Trigger payload\<close>

text \<open>
  Claim C8, as stated: when the live trigger input is non-empty, the payload is the live
  input merged over any configured mock payload. The sample webhook trigger has a mock
  payload that parses to \<open>{a: 1}\<close>; with the live input \<open>{b: 2}\<close> the payload is the base
  fields and \<open>b\<close> only: the field \<open>a\<close> of the mock payload is not in it.
\<close>

theorem trigger_payload_ignores_mock_counterexample:
  \<open>JSON_parse sample_env (JStr ''{"a":1}'') = Inr (JObj [(''a'', JNum 1)])
   \<and> trigger_data sample_env
        (config_or_empty webhook_node)
        [(''b'', JNum 2)] 1
      = [(''triggered'', JBool True), (''timestamp'', JNum 1001), (''b'', JNum 2)]
   \<and> map_of (trigger_data sample_env
        (config_or_empty webhook_node)
        [(''b'', JNum 2)] 1) ''a'' = None\<close>
  by code_simp

lemma js_assign_assigned:
  "distinct (map fst b) \<Longrightarrow> (k, v) \<in> set b \<Longrightarrow> map_of (js_assign a b) k = Some v"
proof (induction b arbitrary: a)
  case Nil
  then show ?case by simp
next
  case (Cons p b)
  obtain key w where p: "p = (key, w)" by (cases p)
  have step: "js_assign a (p # b) = js_assign (AList.update key w a) b"
    by (simp add: js_assign_def p)
  show ?case
  proof (cases "(k, v) \<in> set b")
    case True
    with Cons.prems(1) Cons.IH [of "AList.update key w a"] show ?thesis
      unfolding step by simp
  next
    case False
    with Cons.prems p have kv: "k = key" "v = w" and nk: "k \<notin> fst ` set b" by auto
    from js_assign_other [OF nk] show ?thesis
      unfolding step kv by (simp add: update_conv')
  qed
qed

text \<open>
  Claim C8, amended: the step of a trigger node succeeds with a payload that starts from
  the base fields \<open>triggered: true\<close> and \<open>timestamp\<close>. When the live trigger input is
  non-empty, the payload is the base fields with the live input assigned over them, and a
  configured mock payload plays no part. When the live input is empty and the trigger is
  a webhook with a truthy mock request that parses, the payload is the base fields with
  the fields of the parsed mock assigned over them. In both cases a key outside the
  assigned fields keeps its base value, and each assigned field (of distinct keys) is in
  the payload.
\<close>

theorem trigger_payload:
  assumes "node_type node = ''trigger''"
  shows "\<exists>payload.
     fst (compute_result env inp node n st)
       = Computed \<lparr>success = True, res_data = JObj payload, res_error = JUndefined\<rparr>
     \<and> (triggerInput inp \<noteq> [] \<longrightarrow>
          payload = js_assign [(''triggered'', JBool True),
                               (''timestamp'', JNum (Date_now env (clock st)))]
                      (triggerInput inp)
          \<and> (\<forall>k. k \<notin> fst ` set (triggerInput inp) \<longrightarrow>
                map_of payload k
                  = map_of [(''triggered'', JBool True),
                            (''timestamp'', JNum (Date_now env (clock st)))] k)
          \<and> (distinct (map fst (triggerInput inp)) \<longrightarrow>
                (\<forall>(k, v) \<in> set (triggerInput inp). map_of payload k = Some v)))
     \<and> (triggerInput inp = []
          \<and> cfg_get (config_or_empty node) ''triggerType'' = JStr ''Webhook''
          \<and> js_truthy (cfg_get (config_or_empty node) ''webhookMockRequest'')
          \<and> JSON_parse env (cfg_get (config_or_empty node) ''webhookMockRequest'')
              = Inr mockData \<longrightarrow>
          payload = js_assign [(''triggered'', JBool True),
                               (''timestamp'', JNum (Date_now env (clock st)))]
                      (js_spread mockData)
          \<and> (\<forall>k. k \<notin> fst ` set (js_spread mockData) \<longrightarrow>
                map_of payload k
                  = map_of [(''triggered'', JBool True),
                            (''timestamp'', JNum (Date_now env (clock st)))] k)
          \<and> (distinct (map fst (js_spread mockData)) \<longrightarrow>
                (\<forall>(k, v) \<in> set (js_spread mockData). map_of payload k = Some v)))"
proof -
  let ?base = "[(''triggered'', JBool True), (''timestamp'', JNum (Date_now env (clock st)))]"
  let ?p = "trigger_data env (config_or_empty node) (triggerInput inp) (clock st)"
  have c: "fst (compute_result env inp node n st)
       = Computed \<lparr>success = True, res_data = JObj ?p, res_error = JUndefined\<rparr>"
    using assms by (simp add: compute_result_def step_run_def)
  have live: "?p = js_assign ?base (triggerInput inp)" if "triggerInput inp \<noteq> []"
    using that by (simp add: trigger_data_def Let_def)
  have mock: "?p = js_assign ?base (js_spread mockData)"
    if "triggerInput inp = []
          \<and> cfg_get (config_or_empty node) ''triggerType'' = JStr ''Webhook''
          \<and> js_truthy (cfg_get (config_or_empty node) ''webhookMockRequest'')
          \<and> JSON_parse env (cfg_get (config_or_empty node) ''webhookMockRequest'')
              = Inr mockData"
    using that by (simp add: trigger_data_def Let_def)
  have other: "\<forall>k. k \<notin> fst ` set b \<longrightarrow> map_of (js_assign ?base b) k = map_of ?base k"
    for b :: "(string \<times> jsval) list"
    using js_assign_other [where a = ?base and b = b] by blast
  have assigned: "distinct (map fst b) \<longrightarrow>
                    (\<forall>(k, v) \<in> set b. map_of (js_assign ?base b) k = Some v)"
    for b :: "(string \<times> jsval) list"
    using js_assign_assigned [where a = ?base and b = b] by blast
  show ?thesis
  proof (intro exI [of _ ?p] conjI impI)
    show "fst (compute_result env inp node n st)
       = Computed \<lparr>success = True, res_data = JObj ?p, res_error = JUndefined\<rparr>"
      by (rule c)
  qed (use live mock other assigned in \<open>simp_all\<close>)
qed

lemma webhook_facts:
  "node_type webhook_node = ''trigger''"
  "cfg_get (config_or_empty webhook_node) ''triggerType'' = JStr ''Webhook''"
  "js_truthy (cfg_get (config_or_empty webhook_node) ''webhookMockRequest'')"
  \<open>JSON_parse sample_env (cfg_get (config_or_empty webhook_node) ''webhookMockRequest'')
     = Inr (JObj [(''a'', JNum 1)])\<close>
  by code_simp+

theorem trigger_payload_witness:
  "fst (compute_result sample_env (webhook_input [(''b'', JNum 2)]) webhook_node ''T''
          initial_state)
     = Computed \<lparr>success = True,
                 res_data = JObj [(''triggered'', JBool True), (''timestamp'', JNum 1001),
                                  (''b'', JNum 2)],
                 res_error = JUndefined\<rparr>
   \<and> fst (compute_result sample_env (webhook_input []) webhook_node ''T'' initial_state)
     = Computed \<lparr>success = True,
                 res_data = JObj [(''triggered'', JBool True), (''timestamp'', JNum 1001),
                                  (''a'', JNum 1)],
                 res_error = JUndefined\<rparr>"
proof -
  have li: "triggerInput (webhook_input live) = live" for live
    by (simp add: webhook_input_def)
  from trigger_payload [OF webhook_facts(1), where env = sample_env
         and inp = "webhook_input [(''b'', JNum 2)]" and st = initial_state and n = "''T''"]
  have a: "fst (compute_result sample_env (webhook_input [(''b'', JNum 2)]) webhook_node ''T''
                  initial_state)
     = Computed \<lparr>success = True,
                 res_data = JObj [(''triggered'', JBool True), (''timestamp'', JNum 1001),
                                  (''b'', JNum 2)],
                 res_error = JUndefined\<rparr>"
    unfolding li
    by (auto simp add: js_assign_def initial_state_def sample_env_def)
  from trigger_payload [OF webhook_facts(1), where env = sample_env
         and inp = "webhook_input []" and st = initial_state and n = "''T''"
         and mockData = "JObj [(''a'', JNum 1)]"]
       webhook_facts(2,3,4)
  have b: "fst (compute_result sample_env (webhook_input []) webhook_node ''T'' initial_state)
     = Computed \<lparr>success = True,
                 res_data = JObj [(''triggered'', JBool True), (''timestamp'', JNum 1001),
                                  (''a'', JNum 1)],
                 res_error = JUndefined\<rparr>"
    unfolding li
    by (auto simp add: js_assign_def initial_state_def sample_env_def)
  from a b show ?thesis by simp
qed

section \<open>Properties of the template resolver\<close>

lemma template_at_text:
  assumes "template_at s = Some (nodeId, rest, remaining)"
  shows "s = template_text nodeId rest @ remaining"
proof -
  from assms have p: "take 3 s = ''{{@''"
    by (simp add: template_at_def split: if_splits)
  let ?t = "drop 3 s"
  let ?t1 = "dropWhile (\<lambda>c. c \<noteq> CHR '':'') ?t"
  let ?u = "tl ?t1"
  let ?u1 = "dropWhile (\<lambda>c. c \<noteq> CHR ''}'') ?u"
  from assms p have f: "nodeId = takeWhile (\<lambda>c. c \<noteq> CHR '':'') ?t" "?t1 \<noteq> []"
      "rest = takeWhile (\<lambda>c. c \<noteq> CHR ''}'') ?u" "take 2 ?u1 = ''}}''"
      "remaining = drop 2 ?u1"
    by (simp_all add: template_at_def Let_def split: if_splits)
  from f(2) have "hd ?t1 = CHR '':''" using hd_dropWhile [of "\<lambda>c. c \<noteq> CHR '':''" ?t] by simp
  with f(2) have t1: "?t1 = CHR '':'' # ?u" by (cases ?t1) simp_all
  have "s = take 3 s @ ?t" by simp
  also have "?t = nodeId @ ?t1" unfolding f(1) by simp
  also have "?t1 = '':'' @ ?u" using t1 by simp
  also have "?u = rest @ ?u1" unfolding f(3) by simp
  also have "?u1 = take 2 ?u1 @ remaining" unfolding f(5) by simp
  finally show ?thesis
    unfolding p f(4) template_text_def by simp
qed

text \<open>A callback that gives every reference back unchanged leaves the string unchanged.\<close>

lemma replace_templates_unchanged:
  assumes cb: "\<And>nodeId rest st. (nodeId, rest) \<in> set (template_refs s) \<Longrightarrow> I st \<Longrightarrow>
                 f (template_text nodeId rest) nodeId rest st = (template_text nodeId rest, g rest st)
                 \<and> I (g rest st)"
    and inv: "I st"
  shows "replace_templates f s st = (s, fold g (map snd (template_refs s)) st)"
  using assms
proof (induction s arbitrary: st rule: template_refs.induct)
  case 1
  then show ?case by simp
next
  case (2 c cs)
  show ?case
  proof (cases "template_at (c # cs)")
    case None
    have "replace_templates f cs st = (cs, fold g (map snd (template_refs cs)) st)"
    proof (rule "2.IH"(1) [OF None])
      fix nodeId rest st'
      assume "(nodeId, rest) \<in> set (template_refs cs)" "I st'"
      then show "f (template_text nodeId rest) nodeId rest st'
                   = (template_text nodeId rest, g rest st') \<and> I (g rest st')"
        using "2.prems"(1) [of nodeId rest st'] None by simp
    qed (rule "2.prems"(2))
    with None show ?thesis by simp
  next
    case (Some m)
    obtain nodeId rest remaining where m: "m = (nodeId, rest, remaining)" by (cases m)
    note at = Some [unfolded m]
    from "2.prems"(1) [of nodeId rest st] "2.prems"(2) at
    have h: "f (template_text nodeId rest) nodeId rest st = (template_text nodeId rest, g rest st)"
      and i: "I (g rest st)"
      by simp_all
    have ih: "replace_templates f remaining (g rest st)
            = (remaining, fold g (map snd (template_refs remaining)) (g rest st))"
    proof (rule "2.IH"(2) [OF at refl refl])
      fix n r st'
      assume "(n, r) \<in> set (template_refs remaining)" "I st'"
      then show "f (template_text n r) n r st' = (template_text n r, g r st') \<and> I (g r st')"
        using "2.prems"(1) [of n r st'] at by simp
    qed (rule i)
    have rt: "replace_templates f (c # cs) st
                = (template_text nodeId rest @ remaining,
                   fold g (map snd (template_refs remaining)) (g rest st))"
      using at h ih by simp
    have refs: "template_refs (c # cs) = (nodeId, rest) # template_refs remaining"
      using at by simp
    show ?thesis
      unfolding rt refs template_at_text [OF at, symmetric] by simp
  qed
qed

text \<open>
  When no reference of a string finds anything under its sanitized node id (no recorded
  output and nothing inherited), resolution in a configuration string gives the string
  back unchanged (so does \<open>processTemplates\<close> on a field holding it, under any key but
  \<open>__proto__\<close>), and the substitution of a condition leaves the expression text unchanged,
  binds no variable, and records \<open>undefined\<close> as the resolved value of every reference
  (but one whose path is \<open>__proto__\<close>). Both are total functions: nothing is thrown.
\<close>

lemma missing_reference_left_unchanged:
  assumes "\<forall>(nodeId, rest) \<in> set (template_refs s). lookup_output outs (sanitize nodeId) = None"
  shows "process_string env outs s = s
     \<and> (key \<noteq> ''__proto__'' \<longrightarrow> processTemplates env [(key, JStr s)] outs = [(key, JStr s)])
     \<and> (\<exists>resolved. substitute_templates outs s = (s, [], 0, resolved)
           \<and> (\<forall>(nodeId, rest) \<in> set (template_refs s).
                 rest \<noteq> ''__proto__'' \<longrightarrow> map_of resolved rest = Some JUndefined))"
proof -
  have str: "process_string env outs s = s"
  proof -
    have "replace_templates
            (\<lambda>match nodeId rest u. (resolve_text env outs match nodeId rest, u)) s ()
          = (s, fold (\<lambda>rest u. u) (map snd (template_refs s)) ())"
      by (rule replace_templates_unchanged [where I = "\<lambda>u. True"])
         (use assms in \<open>auto simp add: resolve_text_def\<close>)
    then show ?thesis by (simp add: process_string_def)
  qed
  let ?g = "\<lambda>rest (st :: subst_state).
              (case st of (ec, vc, rv) \<Rightarrow> (ec, vc, js_set rest JUndefined rv))"
  let ?I = "\<lambda>st :: subst_state. fst st = [] \<and> fst (snd st) = 0"
  have sub: "substitute_templates outs s
               = (s, fold ?g (map snd (template_refs s)) ([], 0, []))"
    unfolding substitute_templates_def
    by (rule replace_templates_unchanged [where I = ?I])
       (use assms in \<open>auto simp add: condition_callback_def replaceTemplateVariable_def\<close>)
  have fold_g: "fold ?g rs (ec, vc, rv) = (ec, vc, fold (\<lambda>r. js_set r JUndefined) rs rv)"
    for rs ec vc rv
    by (induction rs arbitrary: rv) simp_all
  have fold_u: "map_of (fold (\<lambda>r. js_set r JUndefined) rs rv) k
                  = (if k \<in> set rs \<and> k \<noteq> ''__proto__'' then Some JUndefined else map_of rv k)"
    for rs rv k
    by (induction rs arbitrary: rv) (auto simp add: js_set_def update_conv')
  let ?resolved = "fold (\<lambda>r. js_set r JUndefined) (map snd (template_refs s)) []"
  have "substitute_templates outs s = (s, [], 0, ?resolved)"
    unfolding sub fold_g ..
  moreover have "\<forall>(nodeId, rest) \<in> set (template_refs s).
                   rest \<noteq> ''__proto__'' \<longrightarrow> map_of ?resolved rest = Some JUndefined"
    by (auto simp add: fold_u intro: rev_image_eqI)
  ultimately show ?thesis using str
    by (auto simp add: processTemplates_def js_set_def)
qed

lemma sample_refs:
  "template_refs ''a {{@missing:x}} b {{@gone:y.z}}'' = [(''missing'', ''x''), (''gone'', ''y.z'')]"
  by (simp add: template_at_def)

lemma missing_reference_example:
  "process_string sample_env sample_outputs ''a {{@missing:x}} b {{@gone:y.z}}''
     = ''a {{@missing:x}} b {{@gone:y.z}}''
   \<and> processTemplates sample_env [(''url'', JStr ''a {{@missing:x}} b {{@gone:y.z}}'')]
        sample_outputs
     = [(''url'', JStr ''a {{@missing:x}} b {{@gone:y.z}}'')]
   \<and> fst (substitute_templates sample_outputs ''a {{@missing:x}} b {{@gone:y.z}}'')
     = ''a {{@missing:x}} b {{@gone:y.z}}''
   \<and> map_of (snd (snd (snd
         (substitute_templates sample_outputs ''a {{@missing:x}} b {{@gone:y.z}}'')))) ''x''
     = Some JUndefined"
proof -
  have missing: "\<forall>(nodeId, rest) \<in> set (template_refs ''a {{@missing:x}} b {{@gone:y.z}}'').
                   lookup_output sample_outputs (sanitize nodeId) = None"
    unfolding sample_refs
    by (simp add: sample_outputs_def sanitize_def alphanumeric_def lookup_output_def
        Object_prototype_members_def)
  from missing_reference_left_unchanged [OF missing, of sample_env "''url''"]
  show ?thesis
    unfolding sample_refs by auto
qed

text \<open>
  A path of a reference reaches what the data inherits. The field \<open>toString\<close> of the
  trigger payload, which has no such property, is the function inherited from
  \<open>Object.prototype\<close>: in a condition the variable is bound to it, and the condition that
  consists of this reference alone is true; \<open>__proto__\<close> leads to the prototype objects and
  ends at \<open>null\<close>; an array has its elements, its length and the inherited array methods.
\<close>

lemma inherited_member_on_path:
  "substitute_templates trigger_outputs ''{{@T:x.toString}}''
     = (''__v0'', [(''__v0'', JFunction ''toString'')], 1,
        [(''x.toString'', JFunction ''toString'')])
   \<and> evaluateConditionExpression sample_env (JStr ''{{@T:x.toString}}'') trigger_outputs
       = \<lparr>result = True, resolvedValues = [(''x.toString'', JFunction ''toString'')]\<rparr>
   \<and> substitute_templates trigger_outputs ''{{@T:x.triggered.toString}}''
       = (''__v0'', [(''__v0'', JBool True)], 1, [(''x.triggered.toString'', JBool True)])
   \<and> navigate_text [''__proto__'', ''__proto__''] (JObj []) = Some JNull
   \<and> navigate_text [''__proto__'', ''__proto__'', ''x''] (JObj []) = None
   \<and> navigate_text [''1''] (JArr [JNum 7, JNum 8]) = Some (JNum 8)
   \<and> navigate_text [''length''] (JArr [JNum 7, JNum 8]) = Some (JNum 2)
   \<and> navigate_text [''map''] (JArr [JNum 7, JNum 8]) = Some (JFunction ''map'')
   \<and> navigate_text [''missing''] (JArr [JNum 7, JNum 8]) = Some JUndefined"
  by code_simp

text \<open>
  Claim C4 says that every reference whose sanitized node id has no recorded output is
  left as literal text in a configuration string. A reference to a node id that names an
  inherited member of \<open>Object.prototype\<close> is not: with no output recorded at all,
  \<open>outputs["constructor"]\<close> is the inherited constructor, the guard \<open>if (!output)\<close> does not
  fire, and the reference is replaced by the empty string in a configuration string and
  by a variable bound to \<open>undefined\<close> in a condition.
\<close>

theorem inherited_member_reference_resolved:
  "map_of (own_outputs no_outputs) (sanitize ''constructor'') = None
   \<and> process_string sample_env no_outputs ''{{@constructor:x}}'' = []
   \<and> processTemplates sample_env [(''url'', JStr ''see {{@constructor:x}}'')] no_outputs
       = [(''url'', JStr ''see '')]
   \<and> substitute_templates no_outputs ''{{@constructor:x}}''
       = (''__v0'', [(''__v0'', JUndefined)], 1, [(''x'', JUndefined)])"
  by code_simp

end
